theory Spec2Isabelle
  imports Complex_Main "HOL-Library.AList"
begin

section \<open>Data model\<close>

text \<open>
  The controllers work on three Mongoose collections. An ObjectId is only ever compared
  (through \<^verbatim>\<open>toString()\<close> or through Mongoose's \<^verbatim>\<open>includes\<close>), so it is a number
  here. The string enumerations of the schemas are datatypes, a date is its number of
  milliseconds. The attributes of a task that no controller branch reads (description,
  attachments, location, createdBy, assignedBy, updatedAt) are left out of the record.
\<close>

type_synonym objectId = nat

datatype taskStatus = Pending | InProgress | Completed | Rejected | PendingApproval

datatype reqStatus = RPending | RApproved | RRejected

datatype priority = Low | Medium | High

datatype role = Admin | Member

datatype error = NotFound | Forbidden | Conflict | InvalidInput

record todo =
  todoText :: string
  completed :: bool

record task =
  tid :: objectId
  title :: string
  assignedTo :: "objectId list"
  priority :: priority
  dueDate :: "nat option"
  todoChecklist :: "todo list"
  progress :: nat
  status :: taskStatus
  createdAt :: nat

record request =
  rid :: objectId
  taskId :: objectId
  assignedByAdminId :: objectId
  assignedToUserId :: objectId
  rstatus :: reqStatus
  rejectionReason :: "string option"

text \<open>
  The three collections in insertion order, which is the order \<^verbatim>\<open>find\<close> returns documents
  in. Of a user only the id is kept.
\<close>

record db =
  tasks :: "task list"
  requests :: "request list"
  users :: "objectId list"

text \<open>\<^verbatim>\<open>req.user\<close>, set by the authentication middleware.\<close>

record reqUser =
  user_id :: objectId
  user_role :: role

section \<open>Status resolution in getTasks\<close>

text \<open>
  getTasks loads the tasks with \<^verbatim>\<open>populate\<close> on \<^verbatim>\<open>assignedTo\<close>: each id of the array becomes
  the user document of that id, kept here as the id, and an id that no user has is left
  out of the array. The loaded document holds the populated array in \<^verbatim>\<open>task.assignedTo\<close>
  and in \<^verbatim>\<open>task._doc.assignedTo\<close> alike.
\<close>

definition populateAssignedTo :: "objectId list \<Rightarrow> task \<Rightarrow> task" where
  "populateAssignedTo userIds t = t\<lparr>assignedTo := filter (\<lambda>u. u \<in> set userIds) (assignedTo t)\<rparr>"

text \<open>
  The strings that getTasks uses as keys. \<^verbatim>\<open>toString()\<close> of an ObjectId is its 24
  hexadecimal digits; \<^verbatim>\<open>toString()\<close> of a populated user document is the inspection
  string of the document. The two are never equal.
\<close>

datatype key = IdString objectId | DocString objectId

text \<open>
  \<^verbatim>\<open>assignmentMap[req.assignedToUserId.toString()] = {status, rejectionReason}\<close> for each
  request in the order \<^verbatim>\<open>find\<close> returned them: a JavaScript object keeps a key at the place
  of its first insertion and overwrites its value, which is \<open>AList.update\<close>.
\<close>

definition assignmentMap :: "request list \<Rightarrow> (key \<times> reqStatus \<times> string option) list" where
  "assignmentMap assignmentRequests =
     foldl (\<lambda>m req. AList.update (IdString (assignedToUserId req))
                       (rstatus req, rejectionReason req) m)
       [] assignmentRequests"

text \<open>\<^verbatim>\<open>assignmentMap[k]?.status\<close>: \<open>None\<close> stands for \<^verbatim>\<open>undefined\<close>.\<close>

definition mapStatus :: "(key \<times> reqStatus \<times> string option) list \<Rightarrow> key \<Rightarrow> reqStatus option" where
  "mapStatus m k = map_option fst (map_of m k)"

definition hasPending :: "(key \<times> reqStatus \<times> string option) list \<Rightarrow> bool" where
  "hasPending m = list_ex (\<lambda>req. fst req = RPending) (map snd m)"

definition hasApproved :: "(key \<times> reqStatus \<times> string option) list \<Rightarrow> bool" where
  "hasApproved m = list_ex (\<lambda>req. fst req = RApproved) (map snd m)"

text \<open>
  \<^verbatim>\<open>originalAssignedToIds = task._doc.assignedTo.map((id) => id.toString())\<close>: the elements
  are the populated user documents, so the strings are those of documents. The task \<open>t\<close>
  of the definitions below is the loaded one.
\<close>

definition originalAssignedToIds :: "task \<Rightarrow> key list" where
  "originalAssignedToIds t = map DocString (assignedTo t)"

definition allRejected :: "task \<Rightarrow> (key \<times> reqStatus \<times> string option) list \<Rightarrow> bool" where
  "allRejected t m =
     (length (originalAssignedToIds t) > 0 \<and>
      list_all (\<lambda>userId. mapStatus m userId = Some RRejected) (originalAssignedToIds t))"

text \<open>
  \<^verbatim>\<open>task.assignedTo.length === 1 && assignmentMap[task.assignedTo[0]._id.toString()]?.status === "Rejected"\<close>
\<close>

definition singleUserRejected :: "task \<Rightarrow> (key \<times> reqStatus \<times> string option) list \<Rightarrow> bool" where
  "singleUserRejected t m =
     (case assignedTo t of
        [user] \<Rightarrow> mapStatus m (IdString user) = Some RRejected
      | _ \<Rightarrow> False)"

definition todoStarted :: "task \<Rightarrow> bool" where
  "todoStarted t = list_ex completed (todoChecklist t)"

definition allTodoCompleted :: "task \<Rightarrow> bool" where
  "allTodoCompleted t = (length (todoChecklist t) > 0 \<and> list_all completed (todoChecklist t))"

text \<open>The \<^verbatim>\<open>let status = task.status; if ... else if ...\<close> chain of getTasks.\<close>

definition resolveStatus :: "task \<Rightarrow> request list \<Rightarrow> taskStatus" where
  "resolveStatus t assignmentRequests =
     (let m = assignmentMap assignmentRequests in
      if allRejected t m \<or> singleUserRejected t m then Rejected
      else if hasPending m then PendingApproval
      else if hasApproved m \<and> allTodoCompleted t then Completed
      else if hasApproved m \<and> todoStarted t then InProgress
      else if hasApproved m \<and> \<not> todoStarted t then Pending
      else status t)"

section \<open>Persistence gateway\<close>

text \<open>
  \<^verbatim>\<open>findById\<close> returns the document with that id, \<^verbatim>\<open>save\<close> writes a loaded document back
  under its id, \<^verbatim>\<open>create\<close> appends a document under a new ObjectId. A new ObjectId is
  modelled as a number above every id stored in or referred to by the collections.
\<close>

definition findTaskById :: "db \<Rightarrow> objectId \<Rightarrow> task option" where
  "findTaskById s i = List.find (\<lambda>t. tid t = i) (tasks s)"

definition findRequestById :: "db \<Rightarrow> objectId \<Rightarrow> request option" where
  "findRequestById s i = List.find (\<lambda>r. rid r = i) (requests s)"

definition saveTask :: "db \<Rightarrow> task \<Rightarrow> db" where
  "saveTask s t = s\<lparr>tasks := map (\<lambda>x. if tid x = tid t then t else x) (tasks s)\<rparr>"

definition saveRequest :: "db \<Rightarrow> request \<Rightarrow> db" where
  "saveRequest s r = s\<lparr>requests := map (\<lambda>x. if rid x = rid r then r else x) (requests s)\<rparr>"

definition newObjectId :: "db \<Rightarrow> objectId" where
  "newObjectId s =
     Suc (fold max (map tid (tasks s) @ map rid (requests s) @ map taskId (requests s)) 0)"

section \<open>Read operations\<close>

text \<open>
  One element of the \<^verbatim>\<open>tasks\<close> array of the getTasks response: the stored document with
  \<^verbatim>\<open>assignedTo\<close> replaced by the annotated users (id, rejected, pending, rejectionReason),
  \<^verbatim>\<open>completedTodoCount\<close> added and \<^verbatim>\<open>status\<close> replaced by the computed one.
\<close>

record taskView =
  vdoc :: task
  vassignedTo :: "(objectId \<times> bool \<times> bool \<times> string option) list"
  completedTodoCount :: nat
  vstatus :: taskStatus

text \<open>\<^verbatim>\<open>x || null\<close> on an optional string: the empty string is falsy.\<close>

definition orNull :: "string option \<Rightarrow> string option" where
  "orNull x = (case x of None \<Rightarrow> None | Some v \<Rightarrow> if v = [] then None else Some v)"

definition annotate :: "(key \<times> reqStatus \<times> string option) list \<Rightarrow> objectId
    \<Rightarrow> objectId \<times> bool \<times> bool \<times> string option" where
  "annotate m u =
     (u, mapStatus m (IdString u) = Some RRejected, mapStatus m (IdString u) = Some RPending,
      orNull (case map_of m (IdString u) of None \<Rightarrow> None | Some req \<Rightarrow> snd req))"

text \<open>
  The body of the \<^verbatim>\<open>tasks.map\<close> callback, on a loaded task. \<^verbatim>\<open>User.find\<close> with
  \<^verbatim>\<open>$in\<close> returns the users whose id is one of the given strings.
\<close>

definition taskWithAssignmentInfo :: "db \<Rightarrow> task \<Rightarrow> taskView" where
  "taskWithAssignmentInfo s t =
     (let assignmentRequests = filter (\<lambda>r. taskId r = tid t) (requests s);
          m = assignmentMap assignmentRequests;
          assignedToFiltered =
            filter (\<lambda>u. mapStatus m (IdString u) = None \<or>
                        mapStatus m (IdString u) = Some RApproved \<or>
                        mapStatus m (IdString u) = Some RPending \<or>
                        mapStatus m (IdString u) = Some RRejected)
              (assignedTo t);
          assignedToIds = map IdString (assignedTo t);
          pendingOrRejectedUserIds =
            map fst (filter (\<lambda>(userId, req). (fst req = RPending \<or> fst req = RRejected) \<and>
                                             userId \<notin> set assignedToIds) m);
          extraUsers = filter (\<lambda>u. IdString u \<in> set pendingOrRejectedUserIds) (users s)
      in \<lparr>vdoc = t,
          vassignedTo = map (annotate m) assignedToFiltered @ map (annotate m) extraUsers,
          completedTodoCount = length (filter completed (todoChecklist t)),
          vstatus = resolveStatus t assignmentRequests\<rparr>)"

text \<open>
  The query string of getTasks; \<open>None\<close> is an absent parameter, and for the status also
  \<^verbatim>\<open>"All"\<close>.
\<close>

record taskQuery =
  q_status :: "taskStatus option"
  q_sortBy :: "string option"
  q_sortOrder :: "string option"
  q_assignedTo :: "objectId option"
  q_search :: "string option"

text \<open>
  The key that \<^verbatim>\<open>sort({[sortField]: sortDirection})\<close> orders by: an absent \<^verbatim>\<open>dueDate\<close> comes
  before every date in ascending order. MongoDB leaves the order of documents with equal
  keys open; they are kept in insertion order here.
\<close>

definition sortKey :: "string \<Rightarrow> int \<Rightarrow> task \<Rightarrow> int" where
  "sortKey sortField sortDirection t =
     sortDirection *
       (if sortField = ''dueDate''
        then (case dueDate t of None \<Rightarrow> - 1 | Some d \<Rightarrow> int d)
        else int (createdAt t))"

text \<open>
  getTasks. The filter is on the stored status, on \<^verbatim>\<open>assignedTo\<close> and on the title; a user
  who is not an admin sees the tasks assigned to them. The first argument is MongoDB's
  case-insensitive \<^verbatim>\<open>$regex\<close> match of a pattern against a title, which is not part of
  the sources. The status summary of the response counts stored documents and is left out.
\<close>

definition getTasks ::
    "(string \<Rightarrow> string \<Rightarrow> bool) \<Rightarrow> db \<Rightarrow> reqUser \<Rightarrow> taskQuery \<Rightarrow> taskView list" where
  "getTasks regexMatch s user q =
     (let sortBy = (case q_sortBy q of None \<Rightarrow> ''createdAt'' | Some x \<Rightarrow> x);
          sortOrder = (case q_sortOrder q of None \<Rightarrow> ''desc'' | Some x \<Rightarrow> x);
          sortField = (if sortBy \<in> set [''createdAt'', ''dueDate''] then sortBy
                       else ''createdAt'');
          sortDirection = (if sortOrder \<in> set [''asc'', ''desc'']
                           then (if sortOrder = ''asc'' then 1 else - 1)
                           else - 1);
          matches = (\<lambda>t.
            (case q_status q of None \<Rightarrow> True | Some st \<Rightarrow> status t = st) \<and>
            (case q_search q of None \<Rightarrow> True
             | Some search \<Rightarrow> search = [] \<or> regexMatch search (title t)) \<and>
            (if user_role user = Admin
             then (case q_assignedTo q of None \<Rightarrow> True | Some u \<Rightarrow> u \<in> set (assignedTo t))
             else user_id user \<in> set (assignedTo t)));
          found = sort_key (sortKey sortField sortDirection) (filter matches (tasks s))
      in map (taskWithAssignmentInfo s) (map (populateAssignedTo (users s)) found))"

text \<open>
  getTaskById: the stored document with \<^verbatim>\<open>assignedTo\<close> populated and the status as it is
  stored, or 404.
\<close>

definition getTaskById :: "db \<Rightarrow> objectId \<Rightarrow> error + task" where
  "getTaskById s i =
     (case findTaskById s i of
        None \<Rightarrow> Inl NotFound
      | Some t \<Rightarrow> Inr (populateAssignedTo (users s) t))"

section \<open>Assignment requests\<close>

text \<open>
  createTaskAssignmentRequest: \<^verbatim>\<open>findOne({taskId, assignedToUserId, status: "Pending"})\<close>,
  then the 400 response (the spec's Conflict) or \<^verbatim>\<open>create\<close>.
\<close>

definition createTaskAssignmentRequest :: "db \<Rightarrow> objectId \<Rightarrow> objectId \<Rightarrow> objectId \<Rightarrow> error + db" where
  "createTaskAssignmentRequest s taskId' assignedToUserId' assignedByAdminId' =
     (case List.find (\<lambda>r. taskId r = taskId' \<and> assignedToUserId r = assignedToUserId' \<and>
                            rstatus r = RPending) (requests s) of
        Some existingRequest \<Rightarrow> Inl Conflict
      | None \<Rightarrow>
          Inr (s\<lparr>requests := requests s @
                 [\<lparr>rid = newObjectId s, taskId = taskId',
                   assignedByAdminId = assignedByAdminId',
                   assignedToUserId = assignedToUserId',
                   rstatus = RPending, rejectionReason = None\<rparr>]\<rparr>))"

text \<open>The status written to the task at the end of the reject branch.\<close>

definition rejectTaskStatus :: "request list \<Rightarrow> objectId list \<Rightarrow> taskStatus" where
  "rejectTaskStatus allRequests assignedUserIds =
     (let requestUserIds = map assignedToUserId allRequests;
          directAssignedUserIds = filter (\<lambda>i. i \<notin> set requestUserIds) assignedUserIds;
          directAssignedApprovedCount = length directAssignedUserIds;
          approvedRequestsCount = length (filter (\<lambda>r. rstatus r = RApproved) allRequests);
          rejectedRequestsCount = length (filter (\<lambda>r. rstatus r = RRejected) allRequests);
          pendingRequestsCount = length (filter (\<lambda>r. rstatus r = RPending) allRequests)
      in if rejectedRequestsCount = length allRequests \<and> directAssignedApprovedCount = 0
         then Rejected
         else if pendingRequestsCount > 0 then PendingApproval
         else if approvedRequestsCount + directAssignedApprovedCount > 0 then Pending
         else PendingApproval)"

text \<open>
  respondToAssignmentRequest. The response carries the saved request, which is the request
  of that id in the returned state.
\<close>

definition respondToAssignmentRequest ::
    "db \<Rightarrow> reqUser \<Rightarrow> objectId \<Rightarrow> string \<Rightarrow> string option \<Rightarrow> error + db" where
  "respondToAssignmentRequest s user requestId action rejectionReason' =
     (case findRequestById s requestId of
        None \<Rightarrow> Inl NotFound
      | Some request \<Rightarrow>
          if assignedToUserId request \<noteq> user_id user then Inl Forbidden
          else if action = ''approve'' then
            (case findTaskById s (taskId request) of
               None \<Rightarrow> Inl NotFound
             | Some t \<Rightarrow>
                 let s1 = (if assignedToUserId request \<notin> set (assignedTo t)
                           then saveTask s (t\<lparr>assignedTo :=
                                  assignedTo t @ [assignedToUserId request]\<rparr>)
                           else s)
                 in Inr (saveRequest s1
                          (request\<lparr>rstatus := RApproved, rejectionReason := None\<rparr>)))
          else if action = ''reject'' then
            (let s1 = saveRequest s
                        (request\<lparr>rstatus := RRejected,
                                 rejectionReason := orNull rejectionReason'\<rparr>);
                 allRequests = filter (\<lambda>r. taskId r = taskId request) (requests s1)
             in case findTaskById s1 (taskId request) of
                  None \<Rightarrow> Inr s1
                | Some t \<Rightarrow>
                    Inr (saveTask s1
                          (t\<lparr>status := rejectTaskStatus allRequests (assignedTo t)\<rparr>)))
          else Inl InvalidInput)"

section \<open>Overload check and task creation\<close>

text \<open>
  \<^verbatim>\<open>Task.countDocuments({assignedTo: userId, priority: "High", status: {$ne: "Completed"}})\<close>
\<close>

definition countHighPriority :: "db \<Rightarrow> objectId \<Rightarrow> nat" where
  "countHighPriority s u =
     length (filter (\<lambda>t. u \<in> set (assignedTo t) \<and> priority t = High \<and> status t \<noteq> Completed)
               (tasks s))"

text \<open>checkHighPriorityTasks: the ids of the response's users; \<open>None\<close> is a body without an array.\<close>

definition checkHighPriorityTasks :: "db \<Rightarrow> objectId list option \<Rightarrow> error + objectId list" where
  "checkHighPriorityTasks s userIds =
     (case userIds of
        None \<Rightarrow> Inl InvalidInput
      | Some ids \<Rightarrow> Inr (filter (\<lambda>u. countHighPriority s u \<ge> 2) ids))"

text \<open>
  One call of createTaskAssignmentRequest from createTask: the response object passed
  there drops whatever is sent, so a refused request changes nothing.
\<close>

definition tryCreate :: "objectId \<Rightarrow> objectId \<Rightarrow> db \<Rightarrow> objectId \<Rightarrow> db" where
  "tryCreate tk a st u =
     (case createTaskAssignmentRequest st tk u a of Inl e \<Rightarrow> st | Inr st' \<Rightarrow> st')"

text \<open>
  createTask. The Task schema is not part of the sources, so the values it gives to the
  \<^verbatim>\<open>status\<close>, \<^verbatim>\<open>progress\<close> and \<^verbatim>\<open>createdAt\<close> of a new document are the parameters
  \<open>status0\<close>, \<open>progress0\<close> and \<open>now\<close>. \<open>None\<close> is a body whose \<^verbatim>\<open>assignedTo\<close> is not an
  array.
\<close>

definition createTask ::
    "taskStatus \<Rightarrow> nat \<Rightarrow> nat \<Rightarrow> db \<Rightarrow> reqUser \<Rightarrow> string \<Rightarrow> priority \<Rightarrow> nat option
     \<Rightarrow> objectId list option \<Rightarrow> todo list \<Rightarrow> error + (db \<times> task)" where
  "createTask status0 progress0 now s user title' priority' dueDate' assignedTo' todoChecklist' =
     (case assignedTo' of
        None \<Rightarrow> Inl InvalidInput
      | Some ids \<Rightarrow>
          let usersWithHighPriorityTasks = filter (\<lambda>u. countHighPriority s u \<ge> 2) ids;
              usersWithoutHighPriorityTasks = filter (\<lambda>u. \<not> countHighPriority s u \<ge> 2) ids;
              t = \<lparr>tid = newObjectId s, title = title',
                   assignedTo = usersWithoutHighPriorityTasks,
                   priority = priority', dueDate = dueDate', todoChecklist = todoChecklist',
                   progress = progress0, status = status0, createdAt = now\<rparr>;
              s1 = s\<lparr>tasks := tasks s @ [t]\<rparr>
          in Inr (foldl (tryCreate (tid t) (user_id user)) s1 usersWithHighPriorityTasks, t))"

section \<open>Task updates\<close>

text \<open>
  The progress is computed in JavaScript numbers, which are IEEE 754 doubles: the quotient
  and the product are each rounded to the nearest double, ties to the even significand.
  A positive double below \<open>2 ^ 53\<close> is \<open>m / 2 ^ k\<close> with the significand
  \<open>2 ^ 52 \<le> m \<le> 2 ^ 53\<close>, kept here as the pair \<open>(m, k)\<close>; zero is \<open>(0, 0)\<close>.
  The operands of the source are far from the subnormal range and from overflow.
\<close>

text \<open>The integer nearest to \<open>n / d\<close>, a tie going to the even one.\<close>

definition roundTiesToEven :: "nat \<Rightarrow> nat \<Rightarrow> nat" where
  "roundTiesToEven n d =
     (let m = n div d; r = n mod d
      in if 2 * r < d then m else if d < 2 * r then m + 1 else if even m then m else m + 1)"

text \<open>The least \<open>k\<close> from the given one on with \<open>2 ^ 52 \<le> n * 2 ^ k / d\<close>.\<close>

function normalise :: "nat \<Rightarrow> nat \<Rightarrow> nat \<Rightarrow> nat" where
  "normalise n d k =
     (if n = 0 \<or> d * 2 ^ 52 \<le> n * 2 ^ k then k else normalise n d (Suc k))"
  by pat_completeness auto
termination
proof (relation "measure (\<lambda>(n, d, k). d * 2 ^ 52 - n * 2 ^ k)")
  show "wf (measure (\<lambda>(n, d, k). d * 2 ^ 52 - n * 2 ^ k))" by simp
next
  fix n d k :: nat
  assume a: "\<not> (n = 0 \<or> d * 2 ^ 52 \<le> n * 2 ^ k)"
  then have "n * 2 ^ k < n * 2 ^ Suc k" and "n * 2 ^ k < d * 2 ^ 52" by simp_all
  then have "d * 2 ^ 52 - n * 2 ^ Suc k < d * 2 ^ 52 - n * 2 ^ k"
    by (rule diff_less_mono2)
  then show "((n, d, Suc k), (n, d, k)) \<in> measure (\<lambda>(n, d, k). d * 2 ^ 52 - n * 2 ^ k)"
    by simp
qed

declare normalise.simps [simp del]

text \<open>The double nearest to the quotient \<open>n / d\<close> of two naturals, for \<open>n / d < 2 ^ 53\<close>.\<close>

definition toDouble :: "nat \<Rightarrow> nat \<Rightarrow> nat \<times> nat" where
  "toDouble n d = (let k = normalise n d 0 in (roundTiesToEven (n * 2 ^ k) d, k))"

text \<open>
  \<^verbatim>\<open>a / b\<close> on two array lengths, which are doubles as they are; \<^verbatim>\<open>x * b\<close> on a double
  and a small natural; \<^verbatim>\<open>Math.round\<close>, which rounds a half upwards and is exact.
\<close>

definition jsDivide :: "nat \<Rightarrow> nat \<Rightarrow> nat \<times> nat" where
  "jsDivide a b = toDouble a b"

definition jsTimes :: "nat \<times> nat \<Rightarrow> nat \<Rightarrow> nat \<times> nat" where
  "jsTimes x b = toDouble (fst x * b) (2 ^ snd x)"

definition mathRound :: "nat \<times> nat \<Rightarrow> nat" where
  "mathRound x = (2 * fst x + 2 ^ snd x) div (2 * 2 ^ snd x)"

text \<open>\<^verbatim>\<open>Math.round((completedCount / totalItems) * 100)\<close>\<close>

definition percent :: "nat \<Rightarrow> nat \<Rightarrow> nat" where
  "percent completedCount totalItems = mathRound (jsTimes (jsDivide completedCount totalItems) 100)"

definition calcProgress :: "todo list \<Rightarrow> nat" where
  "calcProgress todoChecklist' =
     (let completedCount = length (filter completed todoChecklist');
          totalItems = length todoChecklist'
      in if totalItems > 0 then percent completedCount totalItems else 0)"

definition updateTaskChecklist :: "db \<Rightarrow> reqUser \<Rightarrow> objectId \<Rightarrow> todo list \<Rightarrow> error + db" where
  "updateTaskChecklist s user i todoChecklist' =
     (case findTaskById s i of
        None \<Rightarrow> Inl NotFound
      | Some t \<Rightarrow>
          if user_id user \<notin> set (assignedTo t) \<and> user_role user \<noteq> Admin then Inl Forbidden
          else if status t = Rejected then Inl Forbidden
          else
            let p = calcProgress todoChecklist'
            in Inr (saveTask s
                     (t\<lparr>todoChecklist := todoChecklist', progress := p,
                        status := (if p = 100 then Completed
                                   else if p > 0 then InProgress
                                   else Pending)\<rparr>)))"

text \<open>
  updateTask: each field of the body replaces the stored one when it is present
  (\<^verbatim>\<open>req.body.x || task.x\<close>; an array is truthy also when empty, an empty string is
  not). A body naming a user
  that \<^verbatim>\<open>User.find\<close> does not return is refused with 404. The 400 for an
  \<^verbatim>\<open>assignedTo\<close> that is not an array is excluded by the type of the argument.
\<close>

definition updateTask ::
    "db \<Rightarrow> objectId \<Rightarrow> string option \<Rightarrow> priority option \<Rightarrow> nat option \<Rightarrow> todo list option
     \<Rightarrow> objectId list option \<Rightarrow> error + db" where
  "updateTask s i title' priority' dueDate' todoChecklist' assignedTo' =
     (case findTaskById s i of
        None \<Rightarrow> Inl NotFound
      | Some t \<Rightarrow>
          if (case assignedTo' of
                None \<Rightarrow> False
              | Some ids \<Rightarrow> length (filter (\<lambda>u. u \<in> set ids) (users s)) \<noteq> length ids)
          then Inl NotFound
          else Inr (saveTask s
                     (t\<lparr>title := (case title' of None \<Rightarrow> title t
                                   | Some x \<Rightarrow> if x = [] then title t else x),
                        priority := (case priority' of None \<Rightarrow> priority t | Some p \<Rightarrow> p),
                        dueDate := (case dueDate' of None \<Rightarrow> dueDate t | Some d \<Rightarrow> Some d),
                        todoChecklist :=
                          (case todoChecklist' of None \<Rightarrow> todoChecklist t | Some c \<Rightarrow> c),
                        assignedTo :=
                          (case assignedTo' of None \<Rightarrow> assignedTo t | Some a \<Rightarrow> a)\<rparr>)))"

definition updateTaskStatus :: "db \<Rightarrow> reqUser \<Rightarrow> objectId \<Rightarrow> taskStatus option \<Rightarrow> error + db" where
  "updateTaskStatus s user i status' =
     (case findTaskById s i of
        None \<Rightarrow> Inl NotFound
      | Some t \<Rightarrow>
          if user_id user \<notin> set (assignedTo t) \<and> user_role user \<noteq> Admin then Inl Forbidden
          else
            let t1 = t\<lparr>status := (case status' of None \<Rightarrow> status t | Some st \<Rightarrow> st)\<rparr>
            in Inr (saveTask s
                     (if status t1 = Completed
                      then t1\<lparr>todoChecklist :=
                                map (\<lambda>item. item\<lparr>completed := True\<rparr>) (todoChecklist t1),
                              progress := 100\<rparr>
                      else t1)))"

section \<open>The resolver in the words of the specification\<close>

text \<open>
  The specification describes the map as holding, for each candidate, the latest request
  of that candidate, and the rules as conditions on the mapped requests and the checklist.
\<close>

definition latestRequest :: "request list \<Rightarrow> objectId \<Rightarrow> request option" where
  "latestRequest reqs u = List.find (\<lambda>r. assignedToUserId r = u) (rev reqs)"

definition anyMapped :: "reqStatus \<Rightarrow> request list \<Rightarrow> bool" where
  "anyMapped st reqs =
     (\<exists>u \<in> set (map assignedToUserId reqs). map_option rstatus (latestRequest reqs u) = Some st)"

definition spec_allRejected :: "task \<Rightarrow> request list \<Rightarrow> bool" where
  "spec_allRejected t reqs =
     (assignedTo t \<noteq> [] \<and>
      (\<forall>u \<in> set (assignedTo t). map_option rstatus (latestRequest reqs u) = Some RRejected))"

definition spec_singleUserRejected :: "task \<Rightarrow> request list \<Rightarrow> bool" where
  "spec_singleUserRejected t reqs =
     (length (assignedTo t) = 1 \<and>
      map_option rstatus (latestRequest reqs (hd (assignedTo t))) = Some RRejected)"

definition spec_Resolve :: "task \<Rightarrow> request list \<Rightarrow> taskStatus" where
  "spec_Resolve t reqs =
     (if spec_allRejected t reqs \<or> spec_singleUserRejected t reqs then Rejected
      else if anyMapped RPending reqs then PendingApproval
      else if anyMapped RApproved reqs \<and> todoChecklist t \<noteq> [] \<and>
              (\<forall>item \<in> set (todoChecklist t). completed item) then Completed
      else if anyMapped RApproved reqs \<and> (\<exists>item \<in> set (todoChecklist t). completed item)
           then InProgress
      else if anyMapped RApproved reqs \<and> (\<forall>item \<in> set (todoChecklist t). \<not> completed item)
           then Pending
      else status t)"

section \<open>The other rules in the words of the specification\<close>

text \<open>
  A direct assignee is a member of \<^verbatim>\<open>assignedTo\<close> with no request at all; the reject rule
  is stated on "every request", "any request" and the two counts.
\<close>

definition spec_direct :: "request list \<Rightarrow> objectId list \<Rightarrow> objectId list" where
  "spec_direct reqs assigned =
     filter (\<lambda>u. \<not> (\<exists>r \<in> set reqs. assignedToUserId r = u)) assigned"

definition spec_rejectRule :: "request list \<Rightarrow> objectId list \<Rightarrow> taskStatus" where
  "spec_rejectRule reqs assigned =
     (if (\<forall>r \<in> set reqs. rstatus r = RRejected) \<and> spec_direct reqs assigned = [] then Rejected
      else if (\<exists>r \<in> set reqs. rstatus r = RPending) then PendingApproval
      else if length (filter (\<lambda>r. rstatus r = RApproved) reqs)
                + length (spec_direct reqs assigned) > 0 then Pending
      else PendingApproval)"

text \<open>A Pending request already exists for the pair of task and candidate.\<close>

definition pendingFor :: "db \<Rightarrow> objectId \<Rightarrow> objectId \<Rightarrow> bool" where
  "pendingFor s tk u =
     (\<exists>r \<in> set (requests s). taskId r = tk \<and> assignedToUserId r = u \<and> rstatus r = RPending)"

text \<open>
  The overload classifier: the tasks whose \<^verbatim>\<open>assignedTo\<close> contains the user, whose priority
  is High and whose status is not Completed are at least two.
\<close>

definition spec_IsOverloaded :: "db \<Rightarrow> objectId \<Rightarrow> bool" where
  "spec_IsOverloaded s u =
     (2 \<le> length (filter (\<lambda>t. u \<in> set (assignedTo t) \<and> priority t = High \<and> status t \<noteq> Completed)
                    (tasks s)))"

text \<open>The progress of a checklist: \<open>round(100 * completed / total)\<close>, 0 when it is empty.\<close>

definition spec_progress :: "todo list \<Rightarrow> nat" where
  "spec_progress cl =
     (if cl = [] then 0
      else nat (round (100 * real (length (filter completed cl)) / real (length cl))))"

text \<open>The exact value \<open>100 * completed / total\<close> lies halfway between two integers.\<close>

definition halfway :: "todo list \<Rightarrow> bool" where
  "halfway cl =
     (cl \<noteq> [] \<and> (200 * length (filter completed cl) + length cl) mod (2 * length cl) = 0)"

text \<open>The real number a pair \<open>(m, k)\<close> stands for.\<close>

definition dval :: "nat \<times> nat \<Rightarrow> real" where
  "dval x = real (fst x) / 2 ^ snd x"

section \<open>Example data\<close>

definition ex_task :: task where
  "ex_task = \<lparr>tid = 1, title = ''t'', assignedTo = [7], priority = High, dueDate = None,
     todoChecklist = [\<lparr>todoText = ''a'', completed = True\<rparr>,
                      \<lparr>todoText = ''b'', completed = False\<rparr>],
     progress = 50, status = Pending, createdAt = 0\<rparr>"

definition ex_reqs :: "request list" where
  "ex_reqs = [\<lparr>rid = 2, taskId = 1, assignedByAdminId = 9, assignedToUserId = 7,
               rstatus = RApproved, rejectionReason = None\<rparr>]"

definition user7 :: reqUser where
  "user7 = \<lparr>user_id = 7, user_role = Member\<rparr>"

definition req_pending7 :: request where
  "req_pending7 = \<lparr>rid = 2, taskId = 1, assignedByAdminId = 9, assignedToUserId = 7,
                    rstatus = RPending, rejectionReason = None\<rparr>"

definition task_unassigned :: task where
  "task_unassigned = \<lparr>tid = 1, title = ''t'', assignedTo = [], priority = High,
     dueDate = None, todoChecklist = [],
     progress = 0, status = Pending, createdAt = 0\<rparr>"

definition db_pending :: db where
  "db_pending = \<lparr>tasks = [task_unassigned], requests = [req_pending7], users = [7, 8, 9]\<rparr>"

definition db_orphan :: db where
  "db_orphan = \<lparr>tasks = [], requests = [req_pending7], users = [7, 8, 9]\<rparr>"

definition req_rejected7 :: request where
  "req_rejected7 = \<lparr>rid = 2, taskId = 1, assignedByAdminId = 9, assignedToUserId = 7,
                     rstatus = RRejected, rejectionReason = Some ''busy''\<rparr>"

definition req_rejected8 :: request where
  "req_rejected8 = \<lparr>rid = 3, taskId = 1, assignedByAdminId = 9, assignedToUserId = 8,
                     rstatus = RRejected, rejectionReason = None\<rparr>"

definition task_pair :: task where
  "task_pair = \<lparr>tid = 1, title = ''t'', assignedTo = [7, 8], priority = High,
     dueDate = None, todoChecklist = [],
     progress = 0, status = Pending, createdAt = 0\<rparr>"

definition task_single :: task where
  "task_single = \<lparr>tid = 1, title = ''t'', assignedTo = [7], priority = High, dueDate = None,
     todoChecklist = [\<lparr>todoText = ''a'', completed = True\<rparr>], progress = 100,
     status = Completed, createdAt = 0\<rparr>"

definition task_mixed :: task where
  "task_mixed = \<lparr>tid = 1, title = ''t'', assignedTo = [7, 8], priority = High,
     dueDate = None, todoChecklist = [],
     progress = 0, status = Rejected, createdAt = 0\<rparr>"

definition admin9 :: reqUser where
  "admin9 = \<lparr>user_id = 9, user_role = Admin\<rparr>"

definition req_approved7 :: request where
  "req_approved7 = \<lparr>rid = 2, taskId = 1, assignedByAdminId = 9, assignedToUserId = 7,
                     rstatus = RApproved, rejectionReason = None\<rparr>"

definition req_pending8 :: request where
  "req_pending8 = \<lparr>rid = 3, taskId = 1, assignedByAdminId = 9, assignedToUserId = 8,
                    rstatus = RPending, rejectionReason = None\<rparr>"

definition db_completed :: db where
  "db_completed = \<lparr>tasks = [task_single], requests = [req_approved7], users = [7, 8, 9]\<rparr>"

definition db_completed_asked :: db where
  "db_completed_asked =
     \<lparr>tasks = [task_single], requests = [req_approved7, req_pending8], users = [7, 8, 9]\<rparr>"

definition req_again7 :: request where
  "req_again7 = \<lparr>rid = 3, taskId = 1, assignedByAdminId = 9, assignedToUserId = 7,
                  rstatus = RPending, rejectionReason = None\<rparr>"

definition task_refused :: task where
  "task_refused = \<lparr>tid = 1, title = ''t'', assignedTo = [], priority = High,
     dueDate = None, todoChecklist = [],
     progress = 0, status = Rejected, createdAt = 0\<rparr>"

definition db_refused :: db where
  "db_refused = \<lparr>tasks = [task_refused], requests = [req_rejected7], users = [7, 8, 9]\<rparr>"

definition db_asked_again :: db where
  "db_asked_again =
     \<lparr>tasks = [task_refused], requests = [req_rejected7, req_again7], users = [7, 8, 9]\<rparr>"

definition task_accepted :: task where
  "task_accepted = task_refused\<lparr>assignedTo := [7]\<rparr>"

definition db_accepted :: db where
  "db_accepted =
     \<lparr>tasks = [task_accepted],
      requests = [req_rejected7, req_again7\<lparr>rstatus := RApproved\<rparr>], users = [7, 8, 9]\<rparr>"

definition item_done :: todo where
  "item_done = \<lparr>todoText = ''a'', completed = True\<rparr>"

definition item_open :: todo where
  "item_open = \<lparr>todoText = ''b'', completed = False\<rparr>"

definition checklist_201 :: "todo list" where
  "checklist_201 = replicate 200 item_done @ [item_open]"

definition task_busy1 :: task where
  "task_busy1 = \<lparr>tid = 1, title = ''t'', assignedTo = [7, 8], priority = High,
     dueDate = None, todoChecklist = [],
     progress = 0, status = Pending, createdAt = 0\<rparr>"

definition task_busy2 :: task where
  "task_busy2 = \<lparr>tid = 2, title = ''u'', assignedTo = [7], priority = High,
     dueDate = None, todoChecklist = [],
     progress = 0, status = InProgress, createdAt = 0\<rparr>"

definition db_busy :: db where
  "db_busy = \<lparr>tasks = [task_busy1, task_busy2], requests = [], users = [7, 8, 9]\<rparr>"

definition db_one_task :: db where
  "db_one_task = \<lparr>tasks = [ex_task], requests = ex_reqs, users = [7, 8, 9]\<rparr>"

definition task_201 :: task where
  "task_201 = ex_task\<lparr>todoChecklist := checklist_201, progress := 100, status := Completed\<rparr>"

definition checklist_40 :: "todo list" where
  "checklist_40 = replicate 23 item_done @ replicate 17 item_open"

definition task_40 :: task where
  "task_40 = ex_task\<lparr>todoChecklist := checklist_40, progress := 57, status := InProgress\<rparr>"

text \<open>A query without parameters, and a regular-expression match that accepts every title.\<close>

definition noQuery :: taskQuery where
  "noQuery = \<lparr>q_status = None, q_sortBy = None, q_sortOrder = None, q_assignedTo = None,
               q_search = None\<rparr>"

definition matchAll :: "string \<Rightarrow> string \<Rightarrow> bool" where
  "matchAll pattern str = True"

definition req_pending9 :: request where
  "req_pending9 = \<lparr>rid = 4, taskId = 1, assignedByAdminId = 9, assignedToUserId = 9,
                    rstatus = RPending, rejectionReason = None\<rparr>"

definition db_all_rejected :: db where
  "db_all_rejected =
     \<lparr>tasks = [task_pair], requests = [req_rejected7, req_rejected8], users = [7, 8, 9]\<rparr>"

definition db_rejected_asked :: db where
  "db_rejected_asked =
     \<lparr>tasks = [task_mixed], requests = [req_rejected7, req_rejected8, req_pending9],
      users = [7, 8, 9]\<rparr>"

definition db_two_pending :: db where
  "db_two_pending =
     \<lparr>tasks = [task_unassigned], requests = [req_pending7, req_pending8], users = [7, 8, 9]\<rparr>"

definition task_direct :: task where
  "task_direct = task_unassigned\<lparr>assignedTo := [8], status := PendingApproval\<rparr>"

definition db_direct :: db where
  "db_direct = \<lparr>tasks = [task_direct], requests = [req_pending7], users = [7, 8, 9]\<rparr>"

section \<open>Facts about the assignment map\<close>

text \<open>The definitions unfolded when an operation is evaluated on the example data.\<close>

lemmas ex_defs = user7_def admin9_def req_pending7_def req_rejected7_def req_rejected8_def
  req_approved7_def req_pending8_def req_pending9_def req_again7_def task_unassigned_def
  task_single_def task_mixed_def task_pair_def task_direct_def task_refused_def
  task_accepted_def db_pending_def db_orphan_def db_completed_def db_completed_asked_def
  db_refused_def db_asked_again_def db_accepted_def db_all_rejected_def
  db_rejected_asked_def db_two_pending_def db_direct_def noQuery_def matchAll_def

lemmas op_defs = findTaskById_def findRequestById_def saveTask_def saveRequest_def
  newObjectId_def orNull_def Let_def

lemmas ex_defs2 = item_done_def item_open_def task_busy1_def task_busy2_def db_busy_def
  db_one_task_def ex_task_def ex_reqs_def

lemmas read_defs = getTasks_def taskWithAssignmentInfo_def populateAssignedTo_def sortKey_def
  Let_def


lemma find_append_if:
  "List.find P (xs @ ys) = (case List.find P xs of None \<Rightarrow> List.find P ys | Some x \<Rightarrow> Some x)"
  by (induction xs) simp_all

lemma map_of_foldl_update:
  "map_of (foldl (\<lambda>m req. AList.update (IdString (assignedToUserId req))
                     (rstatus req, rejectionReason req) m) m0 reqs) (IdString u) =
     (case List.find (\<lambda>r. assignedToUserId r = u) (rev reqs) of
        None \<Rightarrow> map_of m0 (IdString u)
      | Some r \<Rightarrow> Some (rstatus r, rejectionReason r))"
proof (induction reqs arbitrary: m0)
  case Nil
  show ?case by simp
next
  case (Cons a reqs)
  show ?case
    by (simp add: Cons.IH find_append_if update_conv' split: option.splits)
qed

lemma map_of_foldl_update_other:
  "map_of (foldl (\<lambda>m req. AList.update (IdString (assignedToUserId req))
                     (rstatus req, rejectionReason req) m) m0 reqs) (DocString u) =
     map_of m0 (DocString u)"
  by (induction reqs arbitrary: m0) (simp_all add: update_conv')

lemma mapStatus_assignmentMap:
  "mapStatus (assignmentMap reqs) (IdString u) = map_option rstatus (latestRequest reqs u)"
  by (simp add: mapStatus_def assignmentMap_def latestRequest_def map_of_foldl_update
        split: option.splits)

text \<open>The string of a document is the key of no request.\<close>

lemma mapStatus_DocString: "mapStatus (assignmentMap reqs) (DocString u) = None"
  by (simp add: mapStatus_def assignmentMap_def map_of_foldl_update_other)

lemma distinct_foldl_update:
  "distinct (map fst m0) \<Longrightarrow>
   distinct (map fst (foldl (\<lambda>m req. AList.update (IdString (assignedToUserId req))
                                  (rstatus req, rejectionReason req) m) m0 reqs))"
  by (induction reqs arbitrary: m0) (simp_all add: distinct_update)

lemma keys_foldl_update:
  "fst ` set (foldl (\<lambda>m req. AList.update (IdString (assignedToUserId req))
                        (rstatus req, rejectionReason req) m) m0 reqs)
     = fst ` set m0 \<union> (\<lambda>r. IdString (assignedToUserId r)) ` set reqs"
  by (induction reqs arbitrary: m0) (simp_all add: dom_update Un_ac insert_commute)

lemma distinct_assignmentMap: "distinct (map fst (assignmentMap reqs))"
  by (simp add: assignmentMap_def distinct_foldl_update)

lemma keys_assignmentMap:
  "fst ` set (assignmentMap reqs) = (\<lambda>r. IdString (assignedToUserId r)) ` set reqs"
  by (simp add: assignmentMap_def keys_foldl_update)

lemma mapped_value_iff:
  "(\<exists>v \<in> set (map snd (assignmentMap reqs)). fst v = st) \<longleftrightarrow> anyMapped st reqs"
proof
  assume "\<exists>v \<in> set (map snd (assignmentMap reqs)). fst v = st"
  then obtain k x where kx: "(k, st, x) \<in> set (assignmentMap reqs)" by auto
  then have "fst (k, st, x) \<in> fst ` set (assignmentMap reqs)" by (rule imageI)
  then have "k \<in> (\<lambda>r. IdString (assignedToUserId r)) ` set reqs"
    by (simp only: keys_assignmentMap fst_conv)
  then obtain u where k: "k = IdString u" and u: "u \<in> assignedToUserId ` set reqs" by auto
  from kx have "map_of (assignmentMap reqs) k = Some (st, x)"
    using distinct_assignmentMap by simp
  then have "mapStatus (assignmentMap reqs) (IdString u) = Some st"
    by (simp add: mapStatus_def k)
  with u show "anyMapped st reqs"
    by (auto simp: anyMapped_def mapStatus_assignmentMap)
next
  assume "anyMapped st reqs"
  then obtain u where "mapStatus (assignmentMap reqs) (IdString u) = Some st"
    by (auto simp: anyMapped_def mapStatus_assignmentMap)
  then obtain x where "map_of (assignmentMap reqs) (IdString u) = Some (st, x)"
    by (auto simp: mapStatus_def)
  then have "(IdString u, st, x) \<in> set (assignmentMap reqs)" by (rule map_of_SomeD)
  then show "\<exists>v \<in> set (map snd (assignmentMap reqs)). fst v = st" by force
qed

lemma hasPending_iff: "hasPending (assignmentMap reqs) = anyMapped RPending reqs"
  using mapped_value_iff [of reqs RPending] by (simp add: hasPending_def list_ex_iff)

lemma hasApproved_iff: "hasApproved (assignmentMap reqs) = anyMapped RApproved reqs"
  using mapped_value_iff [of reqs RApproved] by (simp add: hasApproved_def list_ex_iff)

text \<open>
  \<^verbatim>\<open>allRejected\<close> looks the strings of documents up in a map keyed by the strings of ids,
  so it holds of no task.
\<close>

lemma allRejected_never: "\<not> allRejected t (assignmentMap reqs)"
proof (cases "assignedTo t")
  case Nil
  then show ?thesis by (simp add: allRejected_def originalAssignedToIds_def)
next
  case (Cons u us)
  then show ?thesis
    by (simp add: allRejected_def originalAssignedToIds_def mapStatus_DocString)
qed

lemma singleUserRejected_iff:
  "singleUserRejected t (assignmentMap reqs) = spec_singleUserRejected t reqs"
  by (cases "assignedTo t"; cases "tl (assignedTo t)")
     (simp_all add: singleUserRejected_def spec_singleUserRejected_def mapStatus_assignmentMap)

lemma populateAssignedTo_id:
  "set (assignedTo t) \<subseteq> set userIds \<Longrightarrow> populateAssignedTo userIds t = t"
proof -
  assume "set (assignedTo t) \<subseteq> set userIds"
  then have "filter (\<lambda>u. u \<in> set userIds) (assignedTo t) = assignedTo t"
    by (auto simp: filter_id_conv)
  then show ?thesis by (simp add: populateAssignedTo_def)
qed

section \<open>Facts about the store and the reject rule\<close>

lemma length_filter_all: "length (filter P xs) = length xs \<longleftrightarrow> (\<forall>x \<in> set xs. P x)"
proof (induction xs)
  case Nil
  show ?case by simp
next
  case (Cons a xs)
  have "length (filter P xs) \<noteq> Suc (length xs)"
    using length_filter_le [of P xs] by linarith
  with Cons show ?case by auto
qed

lemma rejectTaskStatus_spec: "rejectTaskStatus reqs assigned = spec_rejectRule reqs assigned"
proof -
  have d: "filter (\<lambda>i. i \<notin> set (map assignedToUserId reqs)) assigned = spec_direct reqs assigned"
    unfolding spec_direct_def by (rule filter_cong) auto
  have r: "length (filter (\<lambda>r. rstatus r = RRejected) reqs) = length reqs
             \<longleftrightarrow> (\<forall>r \<in> set reqs. rstatus r = RRejected)"
    by (rule length_filter_all)
  have p: "0 < length (filter (\<lambda>r. rstatus r = RPending) reqs)
             \<longleftrightarrow> (\<exists>r \<in> set reqs. rstatus r = RPending)"
    by (simp add: filter_empty_conv)
  show ?thesis
    unfolding rejectTaskStatus_def spec_rejectRule_def Let_def d r p length_0_conv ..
qed

lemma find_replace_task:
  "List.find (\<lambda>x. tid x = tid t') xs = Some t \<Longrightarrow>
   List.find (\<lambda>x. tid x = tid t') (map (\<lambda>x. if tid x = tid t' then t' else x) xs) = Some t'"
  by (induction xs) (auto split: if_splits)

lemma find_replace_request:
  "List.find (\<lambda>x. rid x = rid r') xs = Some r \<Longrightarrow>
   List.find (\<lambda>x. rid x = rid r') (map (\<lambda>x. if rid x = rid r' then r' else x) xs) = Some r'"
  by (induction xs) (auto split: if_splits)

lemma findTaskById_tid: "findTaskById s i = Some t \<Longrightarrow> tid t = i"
  by (auto simp: findTaskById_def find_Some_iff)

lemma findRequestById_rid: "findRequestById s i = Some r \<Longrightarrow> rid r = i"
  by (auto simp: findRequestById_def find_Some_iff)

lemma findTaskById_saveTask:
  "findTaskById s i = Some t \<Longrightarrow> tid t' = i \<Longrightarrow> findTaskById (saveTask s t') i = Some t'"
  using find_replace_task [of t' "tasks s" t] by (auto simp: findTaskById_def saveTask_def)

lemma findRequestById_saveRequest:
  "findRequestById s i = Some r \<Longrightarrow> rid r' = i \<Longrightarrow>
   findRequestById (saveRequest s r') i = Some r'"
  using find_replace_request [of r' "requests s" r]
  by (auto simp: findRequestById_def saveRequest_def)

lemma findTaskById_saveRequest [simp]: "findTaskById (saveRequest s r) i = findTaskById s i"
  by (simp add: findTaskById_def saveRequest_def)

lemma findRequestById_saveTask [simp]: "findRequestById (saveTask s t) i = findRequestById s i"
  by (simp add: findRequestById_def saveTask_def)

lemma requests_saveTask [simp]: "requests (saveTask s t) = requests s"
  by (simp add: saveTask_def)

lemma tasks_saveRequest [simp]: "tasks (saveRequest s r) = tasks s"
  by (simp add: saveRequest_def)

lemma find_SomeD: "List.find P xs = Some x \<Longrightarrow> x \<in> set xs \<and> P x"
  by (induction xs) (auto split: if_splits)

lemma latestRequest_mem: "latestRequest reqs u = Some r \<Longrightarrow> r \<in> set reqs \<and> assignedToUserId r = u"
  using find_SomeD [of "\<lambda>r. assignedToUserId r = u" "rev reqs" r] by (simp add: latestRequest_def)

lemma resolveStatus_cases:
  "resolveStatus t reqs =
     (if spec_singleUserRejected t reqs then Rejected
      else if anyMapped RPending reqs then PendingApproval
      else if anyMapped RApproved reqs \<and> allTodoCompleted t then Completed
      else if anyMapped RApproved reqs \<and> todoStarted t then InProgress
      else if anyMapped RApproved reqs \<and> \<not> todoStarted t then Pending
      else status t)"
  by (simp add: resolveStatus_def Let_def allRejected_never singleUserRejected_iff
        hasPending_iff hasApproved_iff)

lemma latestRequest_None: "latestRequest reqs u = None \<longleftrightarrow> \<not> (\<exists>r \<in> set reqs. assignedToUserId r = u)"
  by (auto simp: latestRequest_def find_None_iff)

lemma anyMapped_all_rejected:
  assumes "\<forall>r \<in> set reqs. rstatus r = RRejected" and "st \<noteq> RRejected"
  shows "\<not> anyMapped st reqs"
proof
  assume "anyMapped st reqs"
  then obtain u r where "latestRequest reqs u = Some r" and "rstatus r = st"
    by (auto simp: anyMapped_def)
  with assms show False using latestRequest_mem by blast
qed

section \<open>The precedence of the resolver's rules\<close>

text \<open>
  Apart from \<^verbatim>\<open>allRejected\<close>, the chain of getTasks is the rule list of the specification:
  the two agree on every loaded task of which the specification's allRejected does not
  hold.
\<close>

lemma resolveStatus_spec_unless_allRejected:
  assumes "\<not> spec_allRejected t reqs"
  shows "resolveStatus t reqs = spec_Resolve t reqs"
proof -
  have started: "todoStarted t \<longleftrightarrow> (\<exists>item \<in> set (todoChecklist t). completed item)"
    by (simp add: todoStarted_def list_ex_iff)
  have allDone: "allTodoCompleted t \<longleftrightarrow>
      todoChecklist t \<noteq> [] \<and> (\<forall>item \<in> set (todoChecklist t). completed item)"
    by (simp add: allTodoCompleted_def list_all_iff)
  have notStarted: "\<not> todoStarted t \<longleftrightarrow> (\<forall>item \<in> set (todoChecklist t). \<not> completed item)"
    by (simp add: started)
  have "spec_Resolve t reqs =
     (if spec_singleUserRejected t reqs then Rejected
      else if anyMapped RPending reqs then PendingApproval
      else if anyMapped RApproved reqs \<and> allTodoCompleted t then Completed
      else if anyMapped RApproved reqs \<and> todoStarted t then InProgress
      else if anyMapped RApproved reqs \<and> \<not> todoStarted t then Pending
      else status t)"
    unfolding spec_Resolve_def allDone notStarted using assms unfolding started by simp
  then show ?thesis by (simp only: resolveStatus_cases)
qed

text \<open>
  Claim C2, at two failing inputs. The task has the assignees 7 and 8, both users exist,
  and each has one request, which is Rejected: of the specification's rules the first
  matches, and the status is Rejected. In getTasks \<^verbatim>\<open>allRejected\<close> is false, because the
  strings of the populated user documents are looked up in a map keyed by the strings of
  the ids. With the stored status Pending and no further request no rule matches and
  getTasks reports Pending; with a Pending request for a third candidate it reports
  Pending Approval.
\<close>

theorem getTasks_allRejected_slip:
  "map vstatus (getTasks matchAll db_all_rejected admin9 noQuery) = [Pending] \<and>
   spec_Resolve task_pair (requests db_all_rejected) = Rejected \<and>
   map vstatus (getTasks matchAll db_rejected_asked admin9 noQuery) = [PendingApproval] \<and>
   spec_Resolve task_mixed (requests db_rejected_asked) = Rejected"
proof -
  have r1: "resolveStatus task_pair [req_rejected7, req_rejected8] = Pending"
    by (simp add: resolveStatus_cases spec_singleUserRejected_def anyMapped_def
          latestRequest_def ex_defs)
  have r2: "resolveStatus task_mixed [req_rejected7, req_rejected8, req_pending9]
              = PendingApproval"
    by (simp add: resolveStatus_cases spec_singleUserRejected_def anyMapped_def
          latestRequest_def ex_defs)
  have "map vstatus (getTasks matchAll db_all_rejected admin9 noQuery) = [Pending]"
    using r1 by (simp add: read_defs ex_defs)
  moreover have "map vstatus (getTasks matchAll db_rejected_asked admin9 noQuery)
                   = [PendingApproval]"
    using r2 by (simp add: read_defs ex_defs)
  moreover have "spec_Resolve task_pair (requests db_all_rejected) = Rejected"
    by (simp add: spec_Resolve_def spec_allRejected_def latestRequest_def ex_defs)
  moreover have "spec_Resolve task_mixed (requests db_rejected_asked) = Rejected"
    by (simp add: spec_Resolve_def spec_allRejected_def latestRequest_def ex_defs)
  ultimately show ?thesis by simp
qed

text \<open>
  At both inputs every assigned user maps to a Rejected request, and the status that
  getTasks reports is not the one of the specification's rules.
\<close>

theorem getTasks_allRejected_slip_witness:
  "spec_allRejected task_pair (requests db_all_rejected) \<and>
   map vstatus (getTasks matchAll db_all_rejected admin9 noQuery)
     \<noteq> [spec_Resolve task_pair (requests db_all_rejected)] \<and>
   spec_allRejected task_mixed (requests db_rejected_asked) \<and>
   map vstatus (getTasks matchAll db_rejected_asked admin9 noQuery)
     \<noteq> [spec_Resolve task_mixed (requests db_rejected_asked)]"
proof -
  have "spec_allRejected task_pair (requests db_all_rejected)"
    by (simp add: spec_allRejected_def latestRequest_def ex_defs)
  moreover have "spec_allRejected task_mixed (requests db_rejected_asked)"
    by (simp add: spec_allRejected_def latestRequest_def ex_defs)
  moreover have "map vstatus (getTasks matchAll db_all_rejected admin9 noQuery)
                   \<noteq> [spec_Resolve task_pair (requests db_all_rejected)]"
    using getTasks_allRejected_slip by simp
  moreover have "map vstatus (getTasks matchAll db_rejected_asked admin9 noQuery)
                   \<noteq> [spec_Resolve task_mixed (requests db_rejected_asked)]"
    using getTasks_allRejected_slip by simp
  ultimately show ?thesis by simp
qed

section \<open>Rejected tasks\<close>

text \<open>
  Claim C4, as amended. A task with exactly one assigned user, who exists and whose mapped
  request is Rejected, resolves to Rejected, whatever the checklist. For a task with two
  or more assigned users, who all exist, in which every request is Rejected and which has
  a direct assignee, the resolver of getTasks returns the stored status unchanged. The
  recompute of the reject branch, given only Rejected requests, yields Rejected exactly
  when there is no direct assignee.
\<close>

theorem rejected_resolution:
  "(assignedTo t = [u] \<and> u \<in> set userIds \<and>
    map_option rstatus (latestRequest reqs u) = Some RRejected
      \<longrightarrow> resolveStatus (populateAssignedTo userIds t) reqs = Rejected) \<and>
   (2 \<le> length (assignedTo t) \<and> set (assignedTo t) \<subseteq> set userIds \<and>
    (\<forall>r \<in> set reqs. rstatus r = RRejected) \<and> spec_direct reqs (assignedTo t) \<noteq> []
      \<longrightarrow> resolveStatus (populateAssignedTo userIds t) reqs = status t) \<and>
   ((\<forall>r \<in> set reqs. rstatus r = RRejected) \<longrightarrow>
      (rejectTaskStatus reqs (assignedTo t) = Rejected
         \<longleftrightarrow> spec_direct reqs (assignedTo t) = []))"
proof (intro conjI impI)
  assume a: "assignedTo t = [u] \<and> u \<in> set userIds \<and>
    map_option rstatus (latestRequest reqs u) = Some RRejected"
  then have "populateAssignedTo userIds t = t" by (intro populateAssignedTo_id) simp
  moreover have "spec_singleUserRejected t reqs"
    using a by (simp add: spec_singleUserRejected_def)
  ultimately show "resolveStatus (populateAssignedTo userIds t) reqs = Rejected"
    by (simp add: resolveStatus_cases)
next
  assume a: "2 \<le> length (assignedTo t) \<and> set (assignedTo t) \<subseteq> set userIds \<and>
    (\<forall>r \<in> set reqs. rstatus r = RRejected) \<and> spec_direct reqs (assignedTo t) \<noteq> []"
  then have "populateAssignedTo userIds t = t" by (intro populateAssignedTo_id) simp
  moreover have "\<not> spec_singleUserRejected t reqs"
    using a by (simp add: spec_singleUserRejected_def)
  moreover have "\<not> anyMapped RPending reqs" "\<not> anyMapped RApproved reqs"
    using a by (simp_all add: anyMapped_all_rejected)
  ultimately show "resolveStatus (populateAssignedTo userIds t) reqs = status t"
    by (simp add: resolveStatus_cases)
next
  assume a: "\<forall>r \<in> set reqs. rstatus r = RRejected"
  then have "\<not> (\<exists>r \<in> set reqs. rstatus r = RPending)" by auto
  then show "rejectTaskStatus reqs (assignedTo t) = Rejected
               \<longleftrightarrow> spec_direct reqs (assignedTo t) = []"
    using a by (simp add: rejectTaskStatus_spec spec_rejectRule_def)
qed

theorem rejected_resolution_witness:
  "resolveStatus (populateAssignedTo [7, 8, 9] task_single) [req_rejected7] = Rejected \<and>
   resolveStatus (populateAssignedTo [7, 8, 9] task_pair) [req_rejected7] = Pending \<and>
   rejectTaskStatus [req_rejected7] (assignedTo task_pair) \<noteq> Rejected \<and>
   rejectTaskStatus [req_rejected7, req_rejected8] (assignedTo task_pair) = Rejected"
  using rejected_resolution [of task_single 7 "[7, 8, 9]" "[req_rejected7]"]
    rejected_resolution [of task_pair 7 "[7, 8, 9]" "[req_rejected7]"]
    rejected_resolution [of task_pair 7 "[7, 8, 9]" "[req_rejected7, req_rejected8]"]
  by (simp add: task_single_def task_pair_def req_rejected7_def req_rejected8_def
        spec_direct_def latestRequest_def)

text \<open>
  The claim as stated fails where the stored status is already Rejected: with a direct
  assignee beside the rejected one, getTasks still reports Rejected.
\<close>

theorem rejected_resolution_counterexample:
  "length (assignedTo task_mixed) = 2 \<and> rstatus req_rejected7 = RRejected \<and>
   spec_direct [req_rejected7] (assignedTo task_mixed) = [8] \<and>
   populateAssignedTo [7, 8, 9] task_mixed = task_mixed \<and>
   resolveStatus task_mixed [req_rejected7] = Rejected"
  by (simp add: task_mixed_def req_rejected7_def spec_direct_def resolveStatus_cases
        spec_singleUserRejected_def anyMapped_def latestRequest_def populateAssignedTo_def)

section \<open>The reject branch\<close>

text \<open>
  Claim C5. A reject response by the candidate of an existing request on an existing task
  succeeds. In the new state the answered request is Rejected with the given reason (or
  none) and every other request is as before, the users are as before, and the task of
  the request differs from before in its status only, which is that of the narrow rule
  on the requests of the task after the rejection and the assignedTo list of the task:
  Rejected when every request is Rejected and there is no direct assignee; else Pending
  Approval when a request is Pending; else Pending when the approved requests and direct
  assignees together are at least one; else Pending Approval.
\<close>

theorem reject_recompute:
  assumes "findRequestById s requestId = Some r"
    and "assignedToUserId r = user_id user"
    and "findTaskById s (taskId r) = Some t"
  shows "\<exists>s' t'. respondToAssignmentRequest s user requestId ''reject'' reason = Inr s' \<and>
           requests s' =
             map (\<lambda>x. if rid x = requestId
                       then r\<lparr>rstatus := RRejected, rejectionReason := orNull reason\<rparr> else x)
               (requests s) \<and>
           tasks s' = map (\<lambda>x. if tid x = taskId r then t' else x) (tasks s) \<and>
           users s' = users s \<and>
           findTaskById s' (taskId r) = Some t' \<and>
           t' = t\<lparr>status := spec_rejectRule (filter (\<lambda>x. taskId x = taskId r) (requests s'))
                                (assignedTo t)\<rparr>"
proof -
  define r' where "r' = r\<lparr>rstatus := RRejected, rejectionReason := orNull reason\<rparr>"
  define s1 where "s1 = saveRequest s r'"
  define t' where "t' = t\<lparr>status := rejectTaskStatus
      (filter (\<lambda>x. taskId x = taskId r) (requests s1)) (assignedTo t)\<rparr>"
  have rid: "rid r' = requestId"
    using findRequestById_rid [OF assms(1)] by (simp add: r'_def)
  have tid: "tid t' = taskId r"
    using findTaskById_tid [OF assms(3)] by (simp add: t'_def)
  have ft: "findTaskById s1 (taskId r) = Some t"
    using assms(3) by (simp add: s1_def)
  have res: "respondToAssignmentRequest s user requestId ''reject'' reason = Inr (saveTask s1 t')"
    using assms(1,2) ft
    by (simp add: respondToAssignmentRequest_def Let_def r'_def s1_def t'_def)
  have rq: "requests (saveTask s1 t') = map (\<lambda>x. if rid x = requestId then r' else x) (requests s)"
    using rid by (simp add: s1_def saveRequest_def)
  have ts: "tasks (saveTask s1 t') = map (\<lambda>x. if tid x = taskId r then t' else x) (tasks s)"
    using tid by (simp add: s1_def saveTask_def saveRequest_def)
  have us: "users (saveTask s1 t') = users s"
    by (simp add: s1_def saveTask_def saveRequest_def)
  have found: "findTaskById (saveTask s1 t') (taskId r) = Some t'"
    using tid ft by (rule findTaskById_saveTask [rotated])
  have st: "t' = t\<lparr>status := spec_rejectRule
      (filter (\<lambda>x. taskId x = taskId r) (requests (saveTask s1 t'))) (assignedTo t)\<rparr>"
    by (simp add: t'_def rejectTaskStatus_spec)
  show ?thesis
  proof (intro exI conjI)
    show "respondToAssignmentRequest s user requestId ''reject'' reason = Inr (saveTask s1 t')"
      by (rule res)
    show "requests (saveTask s1 t') =
             map (\<lambda>x. if rid x = requestId
                       then r\<lparr>rstatus := RRejected, rejectionReason := orNull reason\<rparr> else x)
               (requests s)"
      using rq by (simp add: r'_def)
    show "tasks (saveTask s1 t') = map (\<lambda>x. if tid x = taskId r then t' else x) (tasks s)"
      by (rule ts)
    show "users (saveTask s1 t') = users s" by (rule us)
    show "findTaskById (saveTask s1 t') (taskId r) = Some t'" by (rule found)
    show "t' = t\<lparr>status := spec_rejectRule
        (filter (\<lambda>x. taskId x = taskId r) (requests (saveTask s1 t'))) (assignedTo t)\<rparr>"
      by (rule st)
  qed
qed

text \<open>
  Three responses of user 7 to request 2. It is the only request of a task without
  assignees: the result is the store with the request Rejected and the task Rejected. A
  second request of the task is Pending: the task becomes Pending Approval and the second
  request stays. The task has the direct assignee 8: the task becomes Pending.
\<close>

theorem reject_recompute_witness:
  "respondToAssignmentRequest db_pending user7 2 ''reject'' (Some ''busy'') = Inr db_refused \<and>
   (\<exists>s'. respondToAssignmentRequest db_two_pending user7 2 ''reject'' (Some ''busy'') = Inr s' \<and>
         requests s' = [req_rejected7, req_pending8] \<and>
         map status (tasks s') = [PendingApproval]) \<and>
   (\<exists>s'. respondToAssignmentRequest db_direct user7 2 ''reject'' (Some ''busy'') = Inr s' \<and>
         requests s' = [req_rejected7] \<and> map status (tasks s') = [Pending])"
proof -
  have h2: "assignedToUserId req_pending7 = user_id user7" by (simp add: ex_defs)
  have r: "req_pending7\<lparr>rstatus := RRejected, rejectionReason := orNull (Some ''busy'')\<rparr>
             = req_rejected7"
    by (simp add: req_pending7_def req_rejected7_def orNull_def)
  have first: "respondToAssignmentRequest db_pending user7 2 ''reject'' (Some ''busy'')
                 = Inr db_refused"
  proof -
    have h1: "findRequestById db_pending 2 = Some req_pending7" by (simp add: op_defs ex_defs)
    have h3: "findTaskById db_pending (taskId req_pending7) = Some task_unassigned"
      by (simp add: op_defs ex_defs)
    obtain s' t' where
      a: "respondToAssignmentRequest db_pending user7 2 ''reject'' (Some ''busy'') = Inr s'" and
      rq: "requests s' = map (\<lambda>x. if rid x = 2 then req_pending7\<lparr>rstatus := RRejected,
             rejectionReason := orNull (Some ''busy'')\<rparr> else x) (requests db_pending)" and
      ts: "tasks s' = map (\<lambda>x. if tid x = taskId req_pending7 then t' else x) (tasks db_pending)" and
      us: "users s' = users db_pending" and
      c: "t' = task_unassigned\<lparr>status := spec_rejectRule
            (filter (\<lambda>x. taskId x = taskId req_pending7) (requests s'))
            (assignedTo task_unassigned)\<rparr>"
      using reject_recompute [OF h1 h2 h3, of "Some ''busy''"] by blast
    have rq': "requests s' = [req_rejected7]"
      unfolding rq r by (simp add: db_pending_def req_pending7_def)
    have t: "t' = task_refused"
      unfolding c rq' by (simp add: spec_rejectRule_def spec_direct_def ex_defs)
    have ts': "tasks s' = [task_refused]"
      unfolding ts t by (simp add: db_pending_def req_pending7_def task_unassigned_def)
    have "s' = db_refused"
      by (rule db.equality) (simp_all add: rq' ts' us db_refused_def db_pending_def)
    with a show ?thesis by simp
  qed
  have second: "\<exists>s'. respondToAssignmentRequest db_two_pending user7 2 ''reject'' (Some ''busy'')
                   = Inr s' \<and> requests s' = [req_rejected7, req_pending8] \<and>
                 map status (tasks s') = [PendingApproval]"
  proof -
    have h1: "findRequestById db_two_pending 2 = Some req_pending7"
      by (simp add: op_defs ex_defs)
    have h3: "findTaskById db_two_pending (taskId req_pending7) = Some task_unassigned"
      by (simp add: op_defs ex_defs)
    obtain s' t' where
      a: "respondToAssignmentRequest db_two_pending user7 2 ''reject'' (Some ''busy'') = Inr s'" and
      rq: "requests s' = map (\<lambda>x. if rid x = 2 then req_pending7\<lparr>rstatus := RRejected,
             rejectionReason := orNull (Some ''busy'')\<rparr> else x) (requests db_two_pending)" and
      ts: "tasks s' = map (\<lambda>x. if tid x = taskId req_pending7 then t' else x)
             (tasks db_two_pending)" and
      c: "t' = task_unassigned\<lparr>status := spec_rejectRule
            (filter (\<lambda>x. taskId x = taskId req_pending7) (requests s'))
            (assignedTo task_unassigned)\<rparr>"
      using reject_recompute [OF h1 h2 h3, of "Some ''busy''"] by blast
    have rq': "requests s' = [req_rejected7, req_pending8]"
      unfolding rq r by (simp add: db_two_pending_def req_pending7_def req_pending8_def)
    have t: "status t' = PendingApproval"
      unfolding c rq' by (simp add: spec_rejectRule_def spec_direct_def ex_defs)
    have m: "map status (tasks s') = [PendingApproval]"
      unfolding ts using t by (simp add: db_two_pending_def req_pending7_def task_unassigned_def)
    show ?thesis by (intro exI [of _ s'] conjI a rq' m)
  qed
  have third: "\<exists>s'. respondToAssignmentRequest db_direct user7 2 ''reject'' (Some ''busy'')
                   = Inr s' \<and> requests s' = [req_rejected7] \<and> map status (tasks s') = [Pending]"
  proof -
    have h1: "findRequestById db_direct 2 = Some req_pending7" by (simp add: op_defs ex_defs)
    have h3: "findTaskById db_direct (taskId req_pending7) = Some task_direct"
      by (simp add: op_defs ex_defs)
    obtain s' t' where
      a: "respondToAssignmentRequest db_direct user7 2 ''reject'' (Some ''busy'') = Inr s'" and
      rq: "requests s' = map (\<lambda>x. if rid x = 2 then req_pending7\<lparr>rstatus := RRejected,
             rejectionReason := orNull (Some ''busy'')\<rparr> else x) (requests db_direct)" and
      ts: "tasks s' = map (\<lambda>x. if tid x = taskId req_pending7 then t' else x) (tasks db_direct)" and
      c: "t' = task_direct\<lparr>status := spec_rejectRule
            (filter (\<lambda>x. taskId x = taskId req_pending7) (requests s'))
            (assignedTo task_direct)\<rparr>"
      using reject_recompute [OF h1 h2 h3, of "Some ''busy''"] by blast
    have rq': "requests s' = [req_rejected7]"
      unfolding rq r by (simp add: db_direct_def req_pending7_def)
    have t: "status t' = Pending"
      unfolding c rq' by (simp add: spec_rejectRule_def spec_direct_def ex_defs)
    have m: "map status (tasks s') = [Pending]"
      unfolding ts using t by (simp add: db_direct_def req_pending7_def ex_defs)
    show ?thesis by (intro exI [of _ s'] conjI a rq' m)
  qed
  show ?thesis by (intro conjI first second third)
qed

section \<open>Responding when the task is gone\<close>

text \<open>
  Claim C10. For an existing request whose candidate is the responder and whose task does
  not exist, approve fails with NotFound before anything is written, and reject succeeds:
  the request becomes Rejected with the given reason (or none), and no task is touched.
\<close>

theorem respond_missing_task:
  assumes "findRequestById s requestId = Some r"
    and "assignedToUserId r = user_id user"
    and "findTaskById s (taskId r) = None"
  shows "respondToAssignmentRequest s user requestId ''approve'' reason = Inl NotFound \<and>
         (\<exists>s'. respondToAssignmentRequest s user requestId ''reject'' reason = Inr s' \<and>
               findRequestById s' requestId =
                 Some (r\<lparr>rstatus := RRejected, rejectionReason := orNull reason\<rparr>) \<and>
               tasks s' = tasks s)"
proof -
  define r' where "r' = r\<lparr>rstatus := RRejected, rejectionReason := orNull reason\<rparr>"
  have a: "respondToAssignmentRequest s user requestId ''approve'' reason = Inl NotFound"
    using assms by (simp add: respondToAssignmentRequest_def)
  have b: "respondToAssignmentRequest s user requestId ''reject'' reason = Inr (saveRequest s r')"
    using assms by (simp add: respondToAssignmentRequest_def Let_def r'_def)
  have "rid r' = requestId"
    using findRequestById_rid [OF assms(1)] by (simp add: r'_def)
  then have "findRequestById (saveRequest s r') requestId = Some r'"
    using assms(1) by (rule findRequestById_saveRequest [rotated])
  with a b show ?thesis by (simp add: r'_def)
qed

theorem respond_missing_task_witness:
  "respondToAssignmentRequest db_orphan user7 2 ''approve'' None = Inl NotFound \<and>
   (\<exists>s'. respondToAssignmentRequest db_orphan user7 2 ''reject'' (Some ''busy'') = Inr s' \<and>
         findRequestById s' 2 = Some req_rejected7 \<and> tasks s' = [])"
proof -
  have h1: "findRequestById db_orphan 2 = Some req_pending7"
    by (simp add: findRequestById_def db_orphan_def req_pending7_def)
  have h2: "assignedToUserId req_pending7 = user_id user7"
    by (simp add: req_pending7_def user7_def)
  have h3: "findTaskById db_orphan (taskId req_pending7) = None"
    by (simp add: findTaskById_def db_orphan_def)
  have r: "req_pending7\<lparr>rstatus := RRejected, rejectionReason := orNull (Some ''busy'')\<rparr>
             = req_rejected7"
    by (simp add: req_pending7_def req_rejected7_def orNull_def)
  show ?thesis
    using respond_missing_task [OF h1 h2 h3, of None]
      respond_missing_task [OF h1 h2 h3, of "Some ''busy''"]
    by (simp add: r db_orphan_def)
qed

section \<open>Creating requests\<close>

lemma create_conflict_iff:
  "createTaskAssignmentRequest s tk u a = Inl Conflict \<longleftrightarrow> pendingFor s tk u"
proof (cases "List.find (\<lambda>r. taskId r = tk \<and> assignedToUserId r = u \<and> rstatus r = RPending)
                (requests s)")
  case None
  then have "\<not> pendingFor s tk u" by (auto simp: pendingFor_def find_None_iff)
  moreover have "createTaskAssignmentRequest s tk u a \<noteq> Inl Conflict"
    by (simp add: createTaskAssignmentRequest_def None)
  ultimately show ?thesis by simp
next
  case (Some x)
  then have "pendingFor s tk u" using find_SomeD [OF Some] by (auto simp: pendingFor_def)
  moreover have "createTaskAssignmentRequest s tk u a = Inl Conflict"
    by (simp add: createTaskAssignmentRequest_def Some)
  ultimately show ?thesis by simp
qed

lemma create_success:
  assumes "\<not> pendingFor s tk u"
  shows "createTaskAssignmentRequest s tk u a =
           Inr (s\<lparr>requests := requests s @
                  [\<lparr>rid = newObjectId s, taskId = tk, assignedByAdminId = a,
                    assignedToUserId = u, rstatus = RPending, rejectionReason = None\<rparr>]\<rparr>)"
proof -
  have "List.find (\<lambda>r. taskId r = tk \<and> assignedToUserId r = u \<and> rstatus r = RPending)
          (requests s) = None"
    using assms by (auto simp: pendingFor_def find_None_iff)
  then show ?thesis by (simp add: createTaskAssignmentRequest_def)
qed

lemma le_fold_max: "x \<in> set xs \<Longrightarrow> x \<le> fold max xs (a::nat)"
proof (induction xs arbitrary: a)
  case Nil
  then show ?case by simp
next
  case (Cons y ys)
  have mono: "b \<le> fold max ys b" for b :: nat
    by (induction ys arbitrary: b) (auto intro: order_trans [OF max.cobounded2])
  show ?case
  proof (cases "x = y")
    case True
    then show ?thesis using mono [of "max y a"] by simp
  next
    case False
    with Cons show ?thesis by simp
  qed
qed

lemma newObjectId_fresh:
  "newObjectId s \<notin> set (map tid (tasks s)) \<and> newObjectId s \<notin> set (map rid (requests s)) \<and>
   newObjectId s \<notin> set (map taskId (requests s))"
proof -
  let ?all = "map tid (tasks s) @ map rid (requests s) @ map taskId (requests s)"
  have "newObjectId s \<notin> set ?all"
  proof
    assume "newObjectId s \<in> set ?all"
    then have "newObjectId s \<le> fold max ?all 0" by (rule le_fold_max)
    then show False by (simp add: newObjectId_def)
  qed
  then show ?thesis by simp
qed

lemma respond_requests:
  assumes "respondToAssignmentRequest s user rq action reason = Inr s1"
  shows "\<exists>r'. rstatus r' \<noteq> RPending \<and>
              requests s1 = map (\<lambda>x. if rid x = rq then r' else x) (requests s)"
proof (cases "findRequestById s rq")
  case None
  with assms show ?thesis by (simp add: respondToAssignmentRequest_def)
next
  case (Some r)
  then have rid: "rid r = rq" by (rule findRequestById_rid)
  show ?thesis
  proof (cases "action = ''approve''")
    case True
    let ?r' = "r\<lparr>rstatus := RApproved, rejectionReason := None\<rparr>"
    from assms Some True rid have "requests s1 = map (\<lambda>x. if rid x = rq then ?r' else x) (requests s)"
      by (auto simp: respondToAssignmentRequest_def Let_def saveRequest_def
            split: if_splits option.splits)
    then show ?thesis by (intro exI [of _ ?r']) simp
  next
    case False
    let ?r' = "r\<lparr>rstatus := RRejected, rejectionReason := orNull reason\<rparr>"
    from assms Some False rid have "requests s1 = map (\<lambda>x. if rid x = rq then ?r' else x) (requests s)"
      by (auto simp: respondToAssignmentRequest_def Let_def saveRequest_def
            split: if_splits option.splits)
    then show ?thesis by (intro exI [of _ ?r']) simp
  qed
qed

lemma resolved_not_pending:
  assumes "respondToAssignmentRequest s user rq action reason = Inr s1"
    and "\<forall>x \<in> set (requests s). taskId x = tk \<and> assignedToUserId x = u \<and> rstatus x = RPending
           \<longrightarrow> rid x = rq"
  shows "\<not> pendingFor s1 tk u"
proof -
  obtain r' where np: "rstatus r' \<noteq> RPending"
    and rs: "requests s1 = map (\<lambda>x. if rid x = rq then r' else x) (requests s)"
    using respond_requests [OF assms(1)] by blast
  show ?thesis
    using np assms(2) by (auto simp: pendingFor_def rs)
qed

text \<open>
  Claim C7. createTaskAssignmentRequest fails with Conflict exactly when a Pending request
  exists for the pair of task and candidate; otherwise it appends one new Pending request
  for the pair under a new id and leaves the tasks as they are; and when the only Pending
  request of a pair has been answered by a successful respondToAssignmentRequest, a new
  request for the pair is accepted.
\<close>

theorem createRequest_conflict:
  "(createTaskAssignmentRequest s tk u a = Inl Conflict \<longleftrightarrow> pendingFor s tk u) \<and>
   (\<not> pendingFor s tk u \<longrightarrow>
      (\<exists>s' n. createTaskAssignmentRequest s tk u a = Inr s' \<and> tasks s' = tasks s \<and>
         requests s' = requests s @ [n] \<and> rid n \<notin> set (map rid (requests s)) \<and>
         taskId n = tk \<and> assignedToUserId n = u \<and> assignedByAdminId n = a \<and>
         rstatus n = RPending)) \<and>
   (\<forall>s1. findRequestById s rq = Some r \<and> taskId r = tk \<and> assignedToUserId r = u \<and>
         rstatus r = RPending \<and>
         (\<forall>x \<in> set (requests s). taskId x = tk \<and> assignedToUserId x = u \<and> rstatus x = RPending
            \<longrightarrow> rid x = rq) \<and>
         respondToAssignmentRequest s user rq action reason = Inr s1
       \<longrightarrow> (\<exists>s2. createTaskAssignmentRequest s1 tk u a = Inr s2))"
proof (intro conjI allI impI)
  show "createTaskAssignmentRequest s tk u a = Inl Conflict \<longleftrightarrow> pendingFor s tk u"
    by (rule create_conflict_iff)
next
  assume "\<not> pendingFor s tk u"
  then show "\<exists>s' n. createTaskAssignmentRequest s tk u a = Inr s' \<and> tasks s' = tasks s \<and>
         requests s' = requests s @ [n] \<and> rid n \<notin> set (map rid (requests s)) \<and>
         taskId n = tk \<and> assignedToUserId n = u \<and> assignedByAdminId n = a \<and>
         rstatus n = RPending"
    using newObjectId_fresh [of s] by (simp add: create_success)
next
  fix s1
  assume h: "findRequestById s rq = Some r \<and> taskId r = tk \<and> assignedToUserId r = u \<and>
         rstatus r = RPending \<and>
         (\<forall>x \<in> set (requests s). taskId x = tk \<and> assignedToUserId x = u \<and> rstatus x = RPending
            \<longrightarrow> rid x = rq) \<and>
         respondToAssignmentRequest s user rq action reason = Inr s1"
  then have "\<not> pendingFor s1 tk u" using resolved_not_pending by blast
  then show "\<exists>s2. createTaskAssignmentRequest s1 tk u a = Inr s2"
    by (simp add: create_success)
qed

theorem createRequest_conflict_witness:
  "createTaskAssignmentRequest db_pending 1 7 9 = Inl Conflict \<and>
   createTaskAssignmentRequest db_pending 1 8 9 \<noteq> Inl Conflict \<and>
   respondToAssignmentRequest db_pending user7 2 ''reject'' (Some ''busy'') = Inr db_refused \<and>
   createTaskAssignmentRequest db_refused 1 7 9 \<noteq> Inl Conflict"
proof -
  have p7: "pendingFor db_pending 1 7" and p8: "\<not> pendingFor db_pending 1 8"
    by (simp_all add: pendingFor_def ex_defs)
  have f: "findRequestById db_pending 2 = Some req_pending7"
    by (simp add: op_defs ex_defs)
  have u: "\<forall>x \<in> set (requests db_pending).
      taskId x = 1 \<and> assignedToUserId x = 7 \<and> rstatus x = RPending \<longrightarrow> rid x = 2"
    by (simp add: ex_defs)
  have r: "respondToAssignmentRequest db_pending user7 2 ''reject'' (Some ''busy'') = Inr db_refused"
    by (simp add: respondToAssignmentRequest_def rejectTaskStatus_def op_defs ex_defs)
  have q: "taskId req_pending7 = 1 \<and> assignedToUserId req_pending7 = 7 \<and>
      rstatus req_pending7 = RPending"
    by (simp add: ex_defs)
  show ?thesis
    using createRequest_conflict [of db_pending 1 7 9 2 req_pending7 user7 "''reject''" "Some ''busy''"]
      createRequest_conflict [of db_pending 1 8 9 2 req_pending7 user7 "''reject''" "Some ''busy''"]
      p7 p8 f u r q
    by auto
qed

section \<open>Overload and task creation\<close>

lemma tryCreate_tasks: "tasks (tryCreate tk a st u) = tasks st"
  by (cases "pendingFor st tk u")
     (simp_all add: tryCreate_def create_success create_conflict_iff [THEN iffD2])

lemma tryCreate_pending: "pendingFor (tryCreate tk a st u) tk u"
  by (cases "pendingFor st tk u")
     (simp_all add: tryCreate_def create_success create_conflict_iff [THEN iffD2] pendingFor_def)

lemma tryCreate_mono: "set (requests st) \<subseteq> set (requests (tryCreate tk a st u))"
  by (cases "pendingFor st tk u")
     (auto simp: tryCreate_def create_success create_conflict_iff [THEN iffD2])

lemma tryCreate_new:
  "r \<in> set (requests (tryCreate tk a st u)) \<Longrightarrow>
   r \<in> set (requests st) \<or> (taskId r = tk \<and> assignedToUserId r = u \<and> rstatus r = RPending)"
  by (cases "pendingFor st tk u")
     (auto simp: tryCreate_def create_success create_conflict_iff [THEN iffD2])

lemma foldl_tryCreate_tasks: "tasks (foldl (tryCreate tk a) st us) = tasks st"
  by (induction us arbitrary: st) (simp_all add: tryCreate_tasks)

lemma foldl_tryCreate_mono: "set (requests st) \<subseteq> set (requests (foldl (tryCreate tk a) st us))"
proof (induction us arbitrary: st)
  case Nil
  show ?case by simp
next
  case (Cons u us)
  show ?case using tryCreate_mono [of st tk a u] Cons [of "tryCreate tk a st u"] by auto
qed

lemma pendingFor_mono:
  "set (requests st) \<subseteq> set (requests st') \<Longrightarrow> pendingFor st tk u \<Longrightarrow> pendingFor st' tk u"
  by (auto simp: pendingFor_def)

lemma foldl_tryCreate_pending:
  "u \<in> set us \<Longrightarrow> pendingFor (foldl (tryCreate tk a) st us) tk u"
proof (induction us arbitrary: st)
  case Nil
  then show ?case by simp
next
  case (Cons v us)
  show ?case
  proof (cases "u = v")
    case True
    have "pendingFor (tryCreate tk a st v) tk v" by (rule tryCreate_pending)
    then show ?thesis
      using foldl_tryCreate_mono [of "tryCreate tk a st v" tk a us] True
      by (auto intro: pendingFor_mono)
  next
    case False
    with Cons show ?thesis by simp
  qed
qed

lemma foldl_tryCreate_new:
  "r \<in> set (requests (foldl (tryCreate tk a) st us)) \<Longrightarrow>
   r \<in> set (requests st) \<or> (taskId r = tk \<and> assignedToUserId r \<in> set us \<and> rstatus r = RPending)"
proof (induction us arbitrary: st)
  case Nil
  then show ?case by simp
next
  case (Cons v us)
  from Cons.prems have "r \<in> set (requests (foldl (tryCreate tk a) (tryCreate tk a st v) us))"
    by simp
  then have "r \<in> set (requests (tryCreate tk a st v)) \<or>
      (taskId r = tk \<and> assignedToUserId r \<in> set us \<and> rstatus r = RPending)"
    by (rule Cons.IH)
  then show ?case using tryCreate_new [of r tk a st v] by auto
qed

lemma createTask_eq:
  "createTask status0 progress0 now s user ti pr due (Some ids) cl =
     (let t = \<lparr>tid = newObjectId s, title = ti,
               assignedTo = filter (\<lambda>u. \<not> spec_IsOverloaded s u) ids,
               priority = pr, dueDate = due, todoChecklist = cl, progress = progress0,
               status = status0, createdAt = now\<rparr>
      in Inr (foldl (tryCreate (newObjectId s) (user_id user)) (s\<lparr>tasks := tasks s @ [t]\<rparr>)
                (filter (spec_IsOverloaded s) ids), t))"
proof -
  have o: "(2 \<le> countHighPriority s u) = spec_IsOverloaded s u" for u
    by (simp add: countHighPriority_def spec_IsOverloaded_def)
  show ?thesis
    by (simp add: createTask_def Let_def o)
qed

lemma find_append_fresh:
  "i \<notin> set (map tid xs) \<Longrightarrow> tid t = i \<Longrightarrow> List.find (\<lambda>x. tid x = i) (xs @ [t]) = Some t"
  by (induction xs) auto

text \<open>
  Claim C9. checkHighPriorityTasks returns exactly the given users with at least two tasks
  that contain them in assignedTo, have priority High and are not Completed. createTask
  stores the new task with every overloaded candidate left out of assignedTo and a
  Pending request for the new task in the store, and with every other candidate in
  assignedTo and no request for the new task.
\<close>

theorem createTask_overload:
  "(\<forall>ids. checkHighPriorityTasks s (Some ids) = Inr (filter (spec_IsOverloaded s) ids)) \<and>
   (\<exists>s' t. createTask status0 progress0 now s user ti pr due (Some ids) cl = Inr (s', t) \<and>
      findTaskById s' (tid t) = Some t \<and>
      (\<forall>u \<in> set ids. spec_IsOverloaded s u \<longrightarrow>
           u \<notin> set (assignedTo t) \<and> pendingFor s' (tid t) u) \<and>
      (\<forall>u \<in> set ids. \<not> spec_IsOverloaded s u \<longrightarrow>
           u \<in> set (assignedTo t) \<and>
           \<not> (\<exists>r \<in> set (requests s'). taskId r = tid t \<and> assignedToUserId r = u)))"
proof
  have "spec_IsOverloaded s = (\<lambda>u. 2 \<le> countHighPriority s u)"
    by (intro ext) (simp add: countHighPriority_def spec_IsOverloaded_def)
  then show "\<forall>ids. checkHighPriorityTasks s (Some ids) = Inr (filter (spec_IsOverloaded s) ids)"
    by (simp add: checkHighPriorityTasks_def)
next
  define t where "t = \<lparr>tid = newObjectId s, title = ti,
               assignedTo = filter (\<lambda>u. \<not> spec_IsOverloaded s u) ids,
               priority = pr, dueDate = due, todoChecklist = cl, progress = progress0,
               status = status0, createdAt = now\<rparr>"
  define s1 where "s1 = s\<lparr>tasks := tasks s @ [t]\<rparr>"
  define s' where "s' = foldl (tryCreate (newObjectId s) (user_id user)) s1
                          (filter (spec_IsOverloaded s) ids)"
  have tid: "tid t = newObjectId s" by (simp add: t_def)
  have res: "createTask status0 progress0 now s user ti pr due (Some ids) cl = Inr (s', t)"
    by (simp add: createTask_eq Let_def s'_def s1_def t_def)
  have "tasks s' = tasks s @ [t]"
    by (simp add: s'_def foldl_tryCreate_tasks s1_def)
  then have found: "findTaskById s' (tid t) = Some t"
    using newObjectId_fresh [of s] by (simp add: findTaskById_def find_append_fresh tid)
  have over: "u \<notin> set (assignedTo t) \<and> pendingFor s' (tid t) u"
    if "u \<in> set ids" "spec_IsOverloaded s u" for u
    using that by (simp add: t_def s'_def foldl_tryCreate_pending)
  have notover: "u \<in> set (assignedTo t) \<and>
           \<not> (\<exists>r \<in> set (requests s'). taskId r = tid t \<and> assignedToUserId r = u)"
    if "u \<in> set ids" "\<not> spec_IsOverloaded s u" for u
  proof
    show "u \<in> set (assignedTo t)" using that by (simp add: t_def)
    show "\<not> (\<exists>r \<in> set (requests s'). taskId r = tid t \<and> assignedToUserId r = u)"
    proof
      assume "\<exists>r \<in> set (requests s'). taskId r = tid t \<and> assignedToUserId r = u"
      then obtain r where r: "r \<in> set (requests s')" "taskId r = tid t" "assignedToUserId r = u"
        by blast
      from r(1) have "r \<in> set (requests s1) \<or>
          (taskId r = newObjectId s \<and> assignedToUserId r \<in> set (filter (spec_IsOverloaded s) ids)
           \<and> rstatus r = RPending)"
        unfolding s'_def by (rule foldl_tryCreate_new)
      then show False
      proof
        assume "r \<in> set (requests s1)"
        then have "taskId r \<in> set (map taskId (requests s))" by (simp add: s1_def)
        then show False using newObjectId_fresh [of s] r(2) tid by simp
      next
        assume "taskId r = newObjectId s \<and>
          assignedToUserId r \<in> set (filter (spec_IsOverloaded s) ids) \<and> rstatus r = RPending"
        then show False using r(3) that(2) by simp
      qed
    qed
  qed
  show "\<exists>s' t. createTask status0 progress0 now s user ti pr due (Some ids) cl = Inr (s', t) \<and>
      findTaskById s' (tid t) = Some t \<and>
      (\<forall>u \<in> set ids. spec_IsOverloaded s u \<longrightarrow>
           u \<notin> set (assignedTo t) \<and> pendingFor s' (tid t) u) \<and>
      (\<forall>u \<in> set ids. \<not> spec_IsOverloaded s u \<longrightarrow>
           u \<in> set (assignedTo t) \<and>
           \<not> (\<exists>r \<in> set (requests s'). taskId r = tid t \<and> assignedToUserId r = u))"
    using res found over notover by blast
qed

theorem createTask_overload_witness:
  "spec_IsOverloaded db_busy 7 \<and> \<not> spec_IsOverloaded db_busy 8 \<and>
   (\<exists>s' t. createTask Pending 0 5 db_busy admin9 ''n'' Medium None (Some [7, 8]) [] = Inr (s', t) \<and>
      assignedTo t = [8] \<and> pendingFor s' (tid t) 7 \<and> \<not> pendingFor s' (tid t) 8)"
proof -
  have o7: "spec_IsOverloaded db_busy 7" and o8: "\<not> spec_IsOverloaded db_busy 8"
    by (simp_all add: spec_IsOverloaded_def ex_defs2)
  obtain s' t where
    c: "createTask Pending 0 5 db_busy admin9 ''n'' Medium None (Some [7, 8]) [] = Inr (s', t)" and
    a: "\<forall>u \<in> set [7, 8]. spec_IsOverloaded db_busy u \<longrightarrow>
           u \<notin> set (assignedTo t) \<and> pendingFor s' (tid t) u" and
    b: "\<forall>u \<in> set [7, 8]. \<not> spec_IsOverloaded db_busy u \<longrightarrow>
           u \<in> set (assignedTo t) \<and>
           \<not> (\<exists>r \<in> set (requests s'). taskId r = tid t \<and> assignedToUserId r = u)"
    using createTask_overload [of db_busy Pending 0 5 admin9 "''n''" Medium None "[7, 8]" "[]"] by blast
  have "assignedTo t = [8]"
    using c o7 o8 by (auto simp: createTask_eq Let_def)
  moreover have "pendingFor s' (tid t) 7" using a o7 by simp
  moreover have "\<not> pendingFor s' (tid t) 8" using b o8 by (auto simp: pendingFor_def)
  ultimately show ?thesis using c o7 o8 by blast
qed

section \<open>Double-precision arithmetic\<close>

lemma roundTiesToEven_err:
  assumes "0 < d"
  shows "\<bar>real (roundTiesToEven n d) - real n / real d\<bar> \<le> 1 / 2"
proof -
  define m r where "m = n div d" and "r = n mod d"
  have n: "real n = real d * real m + real r"
    unfolding m_def r_def by (metis mult_div_mod_eq of_nat_add of_nat_mult)
  have rd: "r < d" using assms by (simp add: r_def)
  have q: "real n / real d = real m + real r / real d"
    using assms by (simp add: n field_simps)
  consider "2 * r < d" | "d < 2 * r" | "2 * r = d" by linarith
  then show ?thesis
  proof cases
    case 1
    then have "real r / real d \<le> 1 / 2" using assms by (simp add: field_simps)
    moreover have "roundTiesToEven n d = m"
      using 1 by (simp add: roundTiesToEven_def Let_def m_def r_def)
    ultimately show ?thesis by (simp add: q)
  next
    case 2
    then have "1 / 2 \<le> real r / real d" using assms by (simp add: field_simps)
    moreover have "real r / real d \<le> 1" using rd assms by simp
    moreover have "roundTiesToEven n d = m + 1"
      using 2 by (simp add: roundTiesToEven_def Let_def m_def r_def)
    ultimately show ?thesis by (simp add: q)
  next
    case 3
    then have h: "real r / real d = 1 / 2" using assms by (simp add: field_simps)
    have e: "real n / real d = real m + 1 / 2" unfolding q h ..
    have "roundTiesToEven n d = m \<or> roundTiesToEven n d = m + 1"
      using 3 by (simp add: roundTiesToEven_def Let_def m_def r_def)
    then show ?thesis
    proof
      assume "roundTiesToEven n d = m"
      then show ?thesis unfolding e by simp
    next
      assume "roundTiesToEven n d = m + 1"
      then show ?thesis unfolding e by simp
    qed
  qed
qed

lemma normalise_post: "0 < n \<Longrightarrow> d * 2 ^ 52 \<le> n * 2 ^ normalise n d k"
proof (induction n d k rule: normalise.induct)
  case (1 n d k)
  show ?case
  proof (cases "d * 2 ^ 52 \<le> n * 2 ^ k")
    case True
    then show ?thesis by (subst normalise.simps) simp
  next
    case False
    then have "normalise n d k = normalise n d (Suc k)"
      using "1.prems" by (subst normalise.simps) simp
    then show ?thesis using "1.IH" "1.prems" False by simp
  qed
qed

lemma toDouble_err:
  assumes "0 < n" and "0 < d"
  shows "\<bar>dval (toDouble n d) - real n / real d\<bar> \<le> 1 / (2 * 2 ^ snd (toDouble n d))"
    and "real d * 2 ^ 52 \<le> real n * 2 ^ snd (toDouble n d)"
proof -
  define k where "k = normalise n d 0"
  define A where "A = real (roundTiesToEven (n * 2 ^ k) d)"
  define B where "B = real (n * 2 ^ k) / real d"
  have td: "toDouble n d = (roundTiesToEven (n * 2 ^ k) d, k)"
    by (simp add: toDouble_def k_def Let_def)
  have "\<bar>A - B\<bar> \<le> 1 / 2"
    unfolding A_def B_def using assms(2) by (rule roundTiesToEven_err)
  then have "\<bar>A - B\<bar> / 2 ^ k \<le> (1 / 2) / 2 ^ k"
    by (rule divide_right_mono) simp
  moreover have "\<bar>A - B\<bar> / 2 ^ k = \<bar>(A - B) / 2 ^ k\<bar>"
    by simp
  moreover have "(A - B) / 2 ^ k = A / 2 ^ k - real n / real d"
    by (simp add: B_def diff_divide_distrib)
  ultimately have "\<bar>A / 2 ^ k - real n / real d\<bar> \<le> (1 / 2) / 2 ^ k"
    by simp
  then show "\<bar>dval (toDouble n d) - real n / real d\<bar> \<le> 1 / (2 * 2 ^ snd (toDouble n d))"
    by (simp add: td dval_def A_def)
  have "d * 2 ^ 52 \<le> n * 2 ^ k"
    unfolding k_def using assms(1) by (rule normalise_post)
  then have "real (d * 2 ^ 52) \<le> real (n * 2 ^ k)" by (rule of_nat_mono)
  then show "real d * 2 ^ 52 \<le> real n * 2 ^ snd (toDouble n d)"
    by (simp add: td)
qed

lemma mathRound_floor: "int (mathRound x) = \<lfloor>dval x + 1 / 2\<rfloor>"
proof -
  have "dval x + 1 / 2 = real (2 * fst x + 2 ^ snd x) / real (2 * 2 ^ snd x)"
    by (simp add: dval_def field_simps)
  then have "\<lfloor>dval x + 1 / 2\<rfloor> = \<lfloor>real (2 * fst x + 2 ^ snd x) / real (2 * 2 ^ snd x)\<rfloor>"
    by simp
  also have "\<dots> = int ((2 * fst x + 2 ^ snd x) div (2 * 2 ^ snd x))"
    by (rule floor_divide_of_nat_eq)
  finally show ?thesis by (simp add: mathRound_def)
qed

lemma percent_zero: "percent 0 t = 0"
proof -
  have "normalise 0 d 0 = 0" for d by (subst normalise.simps) simp
  then have "toDouble 0 d = (0, 0)" for d
    by (simp add: toDouble_def roundTiesToEven_def Let_def)
  then show ?thesis
    by (simp add: percent_def jsDivide_def jsTimes_def mathRound_def)
qed

lemma abs_tri: "\<bar>a - c\<bar> \<le> \<bar>a - b\<bar> + \<bar>b - (c::real)\<bar>"
  using abs_triangle_ineq [of "a - b" "b - c"] by simp

lemma percent_close:
  assumes "0 < c" and "c \<le> t" and "t < 2 ^ 32"
  shows "\<bar>dval (jsTimes (jsDivide c t) 100) - 100 * real c / real t\<bar> < 1 / 2 ^ 45"
proof -
  define x where "x = real c / real t"
  define q where "q = jsDivide c t"
  define p where "p = jsTimes q 100"
  have t0: "0 < t" using assms by simp
  have x1: "x \<le> 1" and x0: "1 / 2 ^ 32 < x"
  proof -
    show "x \<le> 1" using assms t0 by (simp add: x_def)
    have "real t < 2 ^ 32" using assms(3) by (metis of_nat_less_iff of_nat_numeral of_nat_power)
    moreover have "1 \<le> real c" using assms(1) by simp
    ultimately have "1 * real t < real c * 2 ^ 32"
      by (intro mult_le_less_imp_less) simp_all
    then show "1 / 2 ^ 32 < x" using t0 by (simp add: x_def field_simps)
  qed
  \<comment> \<open>the division\<close>
  have e1: "\<bar>dval q - x\<bar> \<le> 1 / (2 * 2 ^ snd q)"
    and n1: "real t * 2 ^ 52 \<le> real c * 2 ^ snd q"
    unfolding q_def jsDivide_def x_def using toDouble_err [OF assms(1) t0] by simp_all
  have "real c * 2 ^ snd q \<le> real t * 2 ^ snd q"
    using assms(2) by (simp add: mult_right_mono)
  with n1 have "real t * 2 ^ 52 \<le> real t * 2 ^ snd q" by linarith
  then have k1: "(2::real) ^ 52 \<le> 2 ^ snd q" using t0 by simp
  then have "(2::real) ^ 53 \<le> 2 * 2 ^ snd q" by simp
  then have b1: "1 / (2 * 2 ^ snd q) \<le> 1 / (2::real) ^ 53"
    by (intro divide_left_mono) simp_all
  from e1 b1 have d1: "\<bar>dval q - x\<bar> \<le> 1 / 2 ^ 53" by (rule order_trans)
  from d1 have lo: "x - 1 / 2 ^ 53 \<le> dval q" and hi: "dval q \<le> x + 1 / 2 ^ 53"
    by (simp_all only: abs_diff_le_iff)
  have "(1::real) / 2 ^ 53 < 1 / 2 ^ 32" by simp
  then have qpos: "0 < dval q" using lo x0 by linarith
  then have m1: "0 < fst q" by (simp add: dval_def zero_less_divide_iff)
  have qle: "dval q \<le> 1 + 1 / 2 ^ 53" using hi x1 by linarith
  \<comment> \<open>the multiplication\<close>
  have pd: "p = toDouble (fst q * 100) (2 ^ snd q)" by (simp add: p_def jsTimes_def)
  have "0 < fst q * 100" "0 < (2::nat) ^ snd q" using m1 by simp_all
  from toDouble_err [OF this]
  have e2: "\<bar>dval p - real (fst q * 100) / real ((2::nat) ^ snd q)\<bar> \<le> 1 / (2 * 2 ^ snd p)"
    and n2: "real ((2::nat) ^ snd q) * 2 ^ 52 \<le> real (fst q * 100) * 2 ^ snd p"
    unfolding pd by simp_all
  have v: "real (fst q * 100) / real ((2::nat) ^ snd q) = 100 * dval q"
    by (simp add: dval_def)
  have "real (fst q * 100) = 100 * dval q * 2 ^ snd q" by (simp add: dval_def)
  with n2 have "2 ^ snd q * (2::real) ^ 52 \<le> 2 ^ snd q * (100 * dval q * 2 ^ snd p)"
    by (simp add: mult_ac)
  then have a1: "(2::real) ^ 52 \<le> 100 * dval q * 2 ^ snd p" by simp
  have "100 * dval q \<le> 100 * (1 + 1 / 2 ^ 53)" using qle by simp
  then have a2: "100 * dval q * 2 ^ snd p \<le> 100 * (1 + 1 / 2 ^ 53) * 2 ^ snd p"
    by (rule mult_right_mono) simp
  have "100 * (1 + 1 / 2 ^ 53) < (128::real)" by simp
  then have a3: "100 * (1 + 1 / 2 ^ 53) * 2 ^ snd p < 128 * (2::real) ^ snd p"
    by (rule mult_strict_right_mono) simp
  from a1 a2 a3 have "(2::real) ^ 52 < 128 * 2 ^ snd p" by linarith
  then have k2: "(2::real) ^ 46 < 2 * 2 ^ snd p" by simp
  have b2: "1 / (2 * 2 ^ snd p) < 1 / (2::real) ^ 46"
    using k2 by (rule divide_strict_left_mono) simp_all
  have "\<bar>dval p - 100 * dval q\<bar> \<le> 1 / (2 * 2 ^ snd p)"
    using e2 unfolding v .
  from this b2 have d2: "\<bar>dval p - 100 * dval q\<bar> < 1 / 2 ^ 46" by (rule le_less_trans)
  have d3: "100 * \<bar>dval q - x\<bar> \<le> 100 * (1 / 2 ^ 53)"
    using d1 by (rule mult_left_mono) simp
  have "\<bar>100 * dval q - 100 * x\<bar> = \<bar>100 * (dval q - x)\<bar>"
    by (simp only: right_diff_distrib)
  then have "\<bar>100 * dval q - 100 * x\<bar> = 100 * \<bar>dval q - x\<bar>"
    by (simp only: abs_mult abs_numeral)
  moreover have "\<bar>dval p - 100 * x\<bar> \<le> \<bar>dval p - 100 * dval q\<bar> + \<bar>100 * dval q - 100 * x\<bar>"
    by (rule abs_tri)
  ultimately have d4: "\<bar>dval p - 100 * x\<bar> \<le> \<bar>dval p - 100 * dval q\<bar> + 100 * \<bar>dval q - x\<bar>"
    by simp
  have d5: "(1::real) / 2 ^ 46 + 100 * (1 / 2 ^ 53) < 1 / 2 ^ 45" by simp
  from d2 d3 d4 d5 have "\<bar>dval p - 100 * x\<bar> < 1 / 2 ^ 45" by linarith
  then show ?thesis by (simp add: p_def q_def x_def)
qed

lemma percent_round:
  assumes "0 < t" and "c \<le> t" and "t < 2 ^ 32"
  shows "percent c t \<le> (200 * c + t) div (2 * t)"
    and "(200 * c + t) div (2 * t) \<le> percent c t + 1"
    and "(200 * c + t) mod (2 * t) \<noteq> 0 \<Longrightarrow> percent c t = (200 * c + t) div (2 * t)"
proof -
  define R where "R = (200 * c + t) div (2 * t)"
  define M where "M = (200 * c + t) mod (2 * t)"
  have all: "percent c t \<le> R \<and> R \<le> percent c t + 1 \<and> (M \<noteq> 0 \<longrightarrow> percent c t = R)"
  proof (cases "c = 0")
    case True
    then have "R = 0" using assms(1) by (simp add: R_def)
    then show ?thesis using True by (simp add: percent_zero)
  next
    case False
    define P where "P = dval (jsTimes (jsDivide c t) 100)"
    define X where "X = 100 * real c / real t"
    define B where "B = 1 / (2 * real t)"
    have "\<bar>P - X\<bar> < 1 / 2 ^ 45"
      unfolding P_def X_def using False assms(2,3) by (intro percent_close) simp_all
    then have plo: "X - 1 / 2 ^ 45 < P" and phi: "P < X + 1 / 2 ^ 45"
      by (simp_all only: abs_diff_less_iff)
    have fl: "int (percent c t) = \<lfloor>P + 1 / 2\<rfloor>"
      by (simp add: percent_def P_def mathRound_floor)
    \<comment> \<open>the exact quotient and its distance to the neighbouring integers\<close>
    have "200 * c + t = 2 * t * R + M"
      by (simp add: R_def M_def)
    then have "real (200 * c + t) = real (2 * t * R + M)" by simp
    then have "X + 1 / 2 = real R + real M * B"
      using assms(1) by (simp add: X_def B_def field_simps)
    then have xr: "X + 1 / 2 = real R + real M * B" .
    have "M < 2 * t" using assms(1) by (simp add: M_def)
    then have "M + 1 \<le> 2 * t" by simp
    then have "real (M + 1) \<le> real (2 * t)" by (rule of_nat_mono)
    then have "real M * B + B \<le> 1"
      using assms(1) by (simp add: B_def field_simps)
    then have mhi: "real M * B \<le> 1 - B" by simp
    have mlo: "0 \<le> real M * B" by (simp add: B_def)
    have "real t < 2 ^ 32" using assms(3) by (metis of_nat_less_iff of_nat_numeral of_nat_power)
    then have "2 * real t < 2 ^ 45" by simp
    then have bd: "1 / 2 ^ 45 < B"
      unfolding B_def using assms(1) by (intro divide_strict_left_mono) simp_all
    have b1: "B \<le> 1" using mhi mlo by linarith
    \<comment> \<open>above\<close>
    have "P + 1 / 2 < real R + 1" using phi xr mhi bd by linarith
    then have "P + 1 / 2 < of_int (int R + 1)" by simp
    then have "\<lfloor>P + 1 / 2\<rfloor> < int R + 1" by (simp only: floor_less_iff)
    then have up: "percent c t \<le> R" using fl by simp
    \<comment> \<open>below\<close>
    have "real R - 1 \<le> P + 1 / 2" using plo xr mlo bd b1 by linarith
    then have "of_int (int R - 1) \<le> P + 1 / 2" by simp
    then have "int R - 1 \<le> \<lfloor>P + 1 / 2\<rfloor>" by (simp only: le_floor_iff)
    then have low: "R \<le> percent c t + 1" using fl by simp
    \<comment> \<open>away from a half\<close>
    have "percent c t = R" if "M \<noteq> 0"
    proof -
      from that have "1 \<le> real M" by simp
      then have "1 * B \<le> real M * B" by (rule mult_right_mono) (simp add: B_def)
      then have "real R \<le> P + 1 / 2" using plo xr bd by linarith
      then have "of_int (int R) \<le> P + 1 / 2" by simp
      then have "int R \<le> \<lfloor>P + 1 / 2\<rfloor>" by (simp only: le_floor_iff)
      then show ?thesis using fl up by simp
    qed
    then show ?thesis using up low by simp
  qed
  show "percent c t \<le> (200 * c + t) div (2 * t)"
    and "(200 * c + t) div (2 * t) \<le> percent c t + 1"
    and "(200 * c + t) mod (2 * t) \<noteq> 0 \<Longrightarrow> percent c t = (200 * c + t) div (2 * t)"
    using all by (simp_all add: R_def M_def)
qed

lemmas double_defs = percent_def mathRound_def jsTimes_def jsDivide_def toDouble_def
  roundTiesToEven_def normalise.simps Let_def

section \<open>Checklist updates\<close>

lemma spec_progress_div:
  "spec_progress cl =
     (if cl = [] then 0
      else (200 * length (filter completed cl) + length cl) div (2 * length cl))"
proof (cases "cl = []")
  case True
  then show ?thesis by (simp add: spec_progress_def)
next
  case False
  let ?c = "length (filter completed cl)" and ?t = "length cl"
  have t: "0 < real ?t" using False by simp
  have "100 * real ?c / real ?t + 1 / 2 = real (200 * ?c + ?t) / real (2 * ?t)"
    using t by (simp add: field_simps)
  then have "round (100 * real ?c / real ?t) = \<lfloor>real (200 * ?c + ?t) / real (2 * ?t)\<rfloor>"
    by (simp add: round_def)
  also have "\<dots> = int ((200 * ?c + ?t) div (2 * ?t))"
    by (rule floor_divide_of_nat_eq)
  finally show ?thesis using False by (simp add: spec_progress_def)
qed

lemma calcProgress_round:
  assumes "length cl < 2 ^ 32"
  shows "calcProgress cl \<le> spec_progress cl"
    and "spec_progress cl \<le> calcProgress cl + 1"
    and "\<not> halfway cl \<Longrightarrow> calcProgress cl = spec_progress cl"
proof -
  let ?c = "length (filter completed cl)" and ?t = "length cl"
  have all: "calcProgress cl \<le> spec_progress cl \<and> spec_progress cl \<le> calcProgress cl + 1 \<and>
      (\<not> halfway cl \<longrightarrow> calcProgress cl = spec_progress cl)"
  proof (cases "cl = []")
    case True
    then show ?thesis by (simp add: calcProgress_def spec_progress_def)
  next
    case False
    then have t: "0 < ?t" by simp
    have c: "?c \<le> ?t" by simp
    have cp: "calcProgress cl = percent ?c ?t" using False by (simp add: calcProgress_def)
    have sp: "spec_progress cl = (200 * ?c + ?t) div (2 * ?t)"
      using False by (simp add: spec_progress_div)
    have h: "halfway cl \<longleftrightarrow> (200 * ?c + ?t) mod (2 * ?t) = 0"
      using False by (simp add: halfway_def)
    show ?thesis
      unfolding cp sp h using percent_round [OF t c assms] by blast
  qed
  show "calcProgress cl \<le> spec_progress cl"
    and "spec_progress cl \<le> calcProgress cl + 1"
    and "\<not> halfway cl \<Longrightarrow> calcProgress cl = spec_progress cl"
    using all by blast+
qed

lemma spec_progress_100:
  "100 \<le> spec_progress cl \<longleftrightarrow> cl \<noteq> [] \<and> 199 * length cl \<le> 200 * length (filter completed cl)"
proof (cases "cl = []")
  case True
  then show ?thesis by (simp add: spec_progress_div)
next
  case False
  let ?c = "length (filter completed cl)" and ?t = "length cl"
  have pos: "0 < 2 * ?t" using False by simp
  have "100 \<le> (200 * ?c + ?t) div (2 * ?t) \<longleftrightarrow> 100 * (2 * ?t) \<le> 200 * ?c + ?t"
    using pos by (simp only: less_eq_div_iff_mult_less_eq)
  also have "\<dots> \<longleftrightarrow> 199 * ?t \<le> 200 * ?c" by auto
  finally show ?thesis using False by (simp add: spec_progress_div)
qed

lemma spec_progress_le: "spec_progress cl \<le> 100"
proof (cases "cl = []")
  case True
  then show ?thesis by (simp add: spec_progress_div)
next
  case False
  let ?c = "length (filter completed cl)" and ?t = "length cl"
  have "0 < ?t" using False by simp
  then have "200 * ?c + ?t < 101 * (2 * ?t)"
    using length_filter_le [of completed cl] by linarith
  then have "(200 * ?c + ?t) div (2 * ?t) < 101"
    using False by (simp add: div_less_iff_less_mult)
  then show ?thesis using False by (simp add: spec_progress_div)
qed

lemma above_199_not_halfway:
  assumes "199 * length cl < 200 * length (filter completed cl)"
  shows "\<not> halfway cl"
proof -
  let ?c = "length (filter completed cl)" and ?t = "length cl"
  have c: "?c \<le> ?t" by simp
  have t: "0 < ?t" using assms by (cases cl) simp_all
  have "2 * ?t * 100 \<le> 200 * ?c + ?t" using assms by linarith
  moreover have "200 * ?c + ?t < 2 * ?t * 101"
    using length_filter_le [of completed cl] t by linarith
  then have "200 * ?c + ?t < 2 * ?t * Suc 100" by simp
  ultimately have "(200 * ?c + ?t) div (2 * ?t) = 100"
    by (rule div_nat_eqI)
  then have "(200 * ?c + ?t) mod (2 * ?t) = 200 * ?c + ?t - 2 * ?t * 100"
    by (simp add: modulo_nat_def)
  then have "(200 * ?c + ?t) mod (2 * ?t) \<noteq> 0" using assms by simp
  then show ?thesis by (simp add: halfway_def)
qed

lemma updateTaskChecklist_ok:
  assumes "findTaskById s i = Some t"
    and "user_id user \<in> set (assignedTo t) \<or> user_role user = Admin"
    and "status t \<noteq> Rejected"
  shows "updateTaskChecklist s user i cl =
           Inr (saveTask s (t\<lparr>todoChecklist := cl, progress := calcProgress cl,
                  status := (if calcProgress cl = 100 then Completed
                             else if calcProgress cl > 0 then InProgress else Pending)\<rparr>))"
  using assms by (auto simp: updateTaskChecklist_def Let_def)

text \<open>
  What holds of updateTaskChecklist for every checklist below the length limit of a
  JavaScript array: the gate on Rejected, the status read off the stored progress, and a
  progress that is the rounded percentage or one less.
\<close>

lemma updateTaskChecklist_effect:
  assumes "findTaskById s i = Some t"
    and "user_id user \<in> set (assignedTo t) \<or> user_role user = Admin"
    and "length cl < 2 ^ 32"
  shows "(status t = Rejected \<longrightarrow> updateTaskChecklist s user i cl = Inl Forbidden) \<and>
         (status t \<noteq> Rejected \<longrightarrow>
            (\<exists>s' t'. updateTaskChecklist s user i cl = Inr s' \<and>
               findTaskById s' i = Some t' \<and> todoChecklist t' = cl \<and>
               progress t' \<le> spec_progress cl \<and> spec_progress cl \<le> progress t' + 1 \<and>
               status t' = (if progress t' = 100 then Completed
                            else if 0 < progress t' \<and> progress t' < 100 then InProgress
                            else Pending)))"
proof (intro conjI impI)
  assume "status t = Rejected"
  then show "updateTaskChecklist s user i cl = Inl Forbidden"
    using assms by (auto simp: updateTaskChecklist_def)
next
  assume nr: "status t \<noteq> Rejected"
  define t' where "t' = t\<lparr>todoChecklist := cl, progress := calcProgress cl,
                  status := (if calcProgress cl = 100 then Completed
                             else if calcProgress cl > 0 then InProgress else Pending)\<rparr>"
  have res: "updateTaskChecklist s user i cl = Inr (saveTask s t')"
    unfolding t'_def using assms(1,2) nr by (rule updateTaskChecklist_ok)
  have "tid t' = i" using findTaskById_tid [OF assms(1)] by (simp add: t'_def)
  then have found: "findTaskById (saveTask s t') i = Some t'"
    using assms(1) by (rule findTaskById_saveTask [rotated])
  have le: "calcProgress cl \<le> 100"
    using calcProgress_round(1) [OF assms(3)] spec_progress_le [of cl] by linarith
  have "progress t' \<le> spec_progress cl" "spec_progress cl \<le> progress t' + 1"
    using calcProgress_round(1,2) [OF assms(3)] by (simp_all add: t'_def)
  moreover have "status t' = (if progress t' = 100 then Completed
                            else if 0 < progress t' \<and> progress t' < 100 then InProgress
                            else Pending)"
    using le by (auto simp: t'_def)
  moreover have "todoChecklist t' = cl" by (simp add: t'_def)
  ultimately show "\<exists>s' t'. updateTaskChecklist s user i cl = Inr s' \<and>
               findTaskById s' i = Some t' \<and> todoChecklist t' = cl \<and>
               progress t' \<le> spec_progress cl \<and> spec_progress cl \<le> progress t' + 1 \<and>
               status t' = (if progress t' = 100 then Completed
                            else if 0 < progress t' \<and> progress t' < 100 then InProgress
                            else Pending)"
    using res found by blast
qed

text \<open>
  Claim C8, at a failing input. An assigned user replaces the checklist of a task that is
  not Rejected by one of 40 items, 23 of them completed. The quotient 23 / 40 is the
  double just below 0.575, its product with 100 the double just below 57.5, so the
  stored progress is 57, where round(100 * 23 / 40) is 58.
\<close>

theorem updateTaskChecklist_rounding_slip:
  "updateTaskChecklist db_one_task user7 1 checklist_40 = Inr (db_one_task\<lparr>tasks := [task_40]\<rparr>) \<and>
   progress task_40 = 57 \<and>
   spec_progress (todoChecklist task_40) = 58"
proof -
  have c: "length (filter completed checklist_40) = 23" and t: "length checklist_40 = 40"
    by (simp_all add: checklist_40_def item_done_def item_open_def)
  have ne: "checklist_40 \<noteq> []" using t by auto
  have p: "percent 23 40 = 57" by (simp add: double_defs)
  have cp: "calcProgress checklist_40 = 57"
    by (simp add: calcProgress_def c t p)
  have "updateTaskChecklist db_one_task user7 1 checklist_40
          = Inr (db_one_task\<lparr>tasks := [task_40]\<rparr>)"
    by (simp add: updateTaskChecklist_def op_defs cp task_40_def db_one_task_def ex_task_def
          user7_def)
  moreover have "spec_progress checklist_40 = 58"
    using ne by (simp add: spec_progress_div c t)
  ultimately show ?thesis by (simp add: task_40_def)
qed

lemma updateTaskChecklist_InrD:
  assumes "updateTaskChecklist s user i cl = Inr s'"
  shows "\<exists>t. findTaskById s i = Some t \<and>
             s' = saveTask s (t\<lparr>todoChecklist := cl, progress := calcProgress cl,
                  status := (if calcProgress cl = 100 then Completed
                             else if calcProgress cl > 0 then InProgress else Pending)\<rparr>)"
  using assms by (auto simp: updateTaskChecklist_def Let_def split: option.splits if_splits)

text \<open>
  Claim C6, as amended. After every successful updateTaskChecklist with a checklist below
  the length limit of a JavaScript array, the stored progress is 0 for an empty checklist
  and round(100 * completed / total) whenever that value does not lie exactly halfway
  between two integers. The progress is 100 whenever more than 199 of every 200 items
  are completed, so whenever the checklist is non-empty and every item is completed, and
  only if the checklist is non-empty and at least 199 of every 200 items are completed.
\<close>

theorem checklist_progress:
  assumes "updateTaskChecklist s user i cl = Inr s'" and "length cl < 2 ^ 32"
  shows "\<exists>t'. findTaskById s' i = Some t' \<and> todoChecklist t' = cl \<and>
           (cl = [] \<longrightarrow> progress t' = 0) \<and>
           (\<not> halfway cl \<longrightarrow> progress t' = spec_progress cl) \<and>
           (cl \<noteq> [] \<and> (\<forall>x \<in> set cl. completed x) \<longrightarrow> progress t' = 100) \<and>
           (199 * length cl < 200 * length (filter completed cl) \<longrightarrow> progress t' = 100) \<and>
           (progress t' = 100 \<longrightarrow>
              cl \<noteq> [] \<and> 199 * length cl \<le> 200 * length (filter completed cl))"
proof -
  obtain t where ft: "findTaskById s i = Some t"
    and s': "s' = saveTask s (t\<lparr>todoChecklist := cl, progress := calcProgress cl,
                  status := (if calcProgress cl = 100 then Completed
                             else if calcProgress cl > 0 then InProgress else Pending)\<rparr>)"
    using updateTaskChecklist_InrD [OF assms(1)] by blast
  define t' where "t' = t\<lparr>todoChecklist := cl, progress := calcProgress cl,
                  status := (if calcProgress cl = 100 then Completed
                             else if calcProgress cl > 0 then InProgress else Pending)\<rparr>"
  have "tid t' = i" using findTaskById_tid [OF ft] by (simp add: t'_def)
  then have "findTaskById (saveTask s t') i = Some t'"
    using ft by (rule findTaskById_saveTask [rotated])
  then have found: "findTaskById s' i = Some t'" by (simp add: s' t'_def)
  have p: "progress t' = calcProgress cl" and c: "todoChecklist t' = cl"
    by (simp_all add: t'_def)
  have empty: "cl = [] \<Longrightarrow> calcProgress cl = 0" by (simp add: calcProgress_def)
  have exact: "\<not> halfway cl \<Longrightarrow> calcProgress cl = spec_progress cl"
    using assms(2) by (rule calcProgress_round(3))
  have above: "calcProgress cl = 100"
    if a: "199 * length cl < 200 * length (filter completed cl)"
  proof -
    have "\<not> halfway cl" using a by (rule above_199_not_halfway)
    then have "calcProgress cl = spec_progress cl" by (rule exact)
    moreover have "100 \<le> spec_progress cl"
      using a by (cases cl) (simp_all add: spec_progress_100)
    ultimately show ?thesis using spec_progress_le [of cl] by simp
  qed
  have full: "calcProgress cl = 100" if "cl \<noteq> []" "\<forall>x \<in> set cl. completed x"
  proof -
    have "filter completed cl = cl" using that(2) by (simp add: filter_id_conv)
    then have "199 * length cl < 200 * length (filter completed cl)" using that(1) by simp
    then show ?thesis by (rule above)
  qed
  have only: "cl \<noteq> [] \<and> 199 * length cl \<le> 200 * length (filter completed cl)"
    if "calcProgress cl = 100"
  proof -
    have "100 \<le> spec_progress cl" using calcProgress_round(1) [OF assms(2)] that by simp
    then show ?thesis by (simp add: spec_progress_100)
  qed
  show ?thesis
  proof (intro exI conjI impI)
    show "findTaskById s' i = Some t'" by (rule found)
    show "todoChecklist t' = cl" by (rule c)
    show "progress t' = 0" if "cl = []" using that empty by (simp add: p)
    show "progress t' = spec_progress cl" if "\<not> halfway cl" using that exact by (simp add: p)
    show "progress t' = 100" if "cl \<noteq> [] \<and> (\<forall>x \<in> set cl. completed x)"
      using that full by (simp add: p)
    show "progress t' = 100" if "199 * length cl < 200 * length (filter completed cl)"
      using that above by (simp add: p)
    show "cl \<noteq> []" if "progress t' = 100" using that only by (simp add: p)
    show "199 * length cl \<le> 200 * length (filter completed cl)" if "progress t' = 100"
      using that only by (simp add: p)
  qed
qed

theorem checklist_progress_witness:
  "\<exists>s' t'. updateTaskChecklist db_one_task user7 1 [item_done, item_done] = Inr s' \<and>
     findTaskById s' 1 = Some t' \<and> progress t' = 100"
proof -
  obtain s' where h: "updateTaskChecklist db_one_task user7 1 [item_done, item_done] = Inr s'"
    by (simp add: updateTaskChecklist_def op_defs ex_defs ex_defs2)
  have l: "length [item_done, item_done] < 2 ^ 32" by simp
  have "[item_done, item_done] \<noteq> [] \<and> (\<forall>x \<in> set [item_done, item_done]. completed x)"
    by (simp add: ex_defs2)
  then show ?thesis
    using h checklist_progress [OF h l] by blast
qed

text \<open>
  The claim as stated fails by the rounding: with 200 of 201 items completed the progress
  is 100, which is round(100 * 200 / 201), and the status Completed, while one item is
  open.
\<close>

theorem checklist_progress_counterexample:
  "updateTaskChecklist db_one_task user7 1 checklist_201 = Inr (db_one_task\<lparr>tasks := [task_201]\<rparr>) \<and>
   progress task_201 = 100 \<and>
   progress task_201 = spec_progress (todoChecklist task_201) \<and>
   \<not> completed (last (todoChecklist task_201))"
proof -
  have c: "length (filter completed checklist_201) = 200" and t: "length checklist_201 = 201"
    by (simp_all add: checklist_201_def item_done_def item_open_def)
  have ne: "checklist_201 \<noteq> []" using t by auto
  have p: "percent 200 201 = 100" by (simp add: double_defs)
  have cp: "calcProgress checklist_201 = 100"
    by (simp add: calcProgress_def c t p)
  have "updateTaskChecklist db_one_task user7 1 checklist_201
          = Inr (db_one_task\<lparr>tasks := [task_201]\<rparr>)"
    by (simp add: updateTaskChecklist_def op_defs cp task_201_def db_one_task_def ex_task_def
          user7_def)
  moreover have "spec_progress checklist_201 = 100"
    using ne by (simp add: spec_progress_div c t)
  moreover have "\<not> completed (last (todoChecklist task_201))"
    by (simp add: task_201_def checklist_201_def item_open_def)
  ultimately show ?thesis by (simp add: task_201_def)
qed

text \<open>
  updateTask replaces the checklist and writes neither progress nor status, and
  updateTaskStatus sets the progress of a task it completes to 100 whatever the checklist.
\<close>

lemma updateTask_keeps_progress:
  assumes "findTaskById s i = Some t"
    and "updateTask s i ti pr due (Some cl) None = Inr s'"
  shows "\<exists>t'. findTaskById s' i = Some t' \<and> todoChecklist t' = cl \<and>
              progress t' = progress t \<and> status t' = status t"
proof -
  define t' where "t' = t\<lparr>title := (case ti of None \<Rightarrow> title t
                                     | Some x \<Rightarrow> if x = [] then title t else x),
                          priority := (case pr of None \<Rightarrow> priority t | Some p \<Rightarrow> p),
                          dueDate := (case due of None \<Rightarrow> dueDate t | Some d \<Rightarrow> Some d),
                          todoChecklist := cl, assignedTo := assignedTo t\<rparr>"
  have "s' = saveTask s t'"
    using assms by (simp add: updateTask_def t'_def)
  moreover have "tid t' = i" using findTaskById_tid [OF assms(1)] by (simp add: t'_def)
  then have "findTaskById (saveTask s t') i = Some t'"
    using assms(1) by (rule findTaskById_saveTask [rotated])
  ultimately show ?thesis by (simp add: t'_def)
qed

lemma updateTask_stale_progress:
  "\<exists>s' t'. updateTask db_one_task 1 None None None (Some [item_done, item_done]) None = Inr s' \<and>
     findTaskById s' 1 = Some t' \<and> progress t' = 50 \<and>
     spec_progress (todoChecklist t') = 100"
proof -
  have f: "findTaskById db_one_task 1 = Some ex_task"
    by (simp add: op_defs ex_defs2)
  obtain s' where
    u: "updateTask db_one_task 1 None None None (Some [item_done, item_done]) None = Inr s'"
    using f by (simp add: updateTask_def)
  obtain t' where "findTaskById s' 1 = Some t'" "todoChecklist t' = [item_done, item_done]"
    "progress t' = progress ex_task"
    using updateTask_keeps_progress [OF f u] by blast
  moreover have "spec_progress [item_done, item_done] = 100"
    by (simp add: spec_progress_div ex_defs2)
  moreover have "progress ex_task = 50" by (simp add: ex_task_def)
  ultimately show ?thesis using u by auto
qed

lemma updateTaskStatus_completed:
  assumes "findTaskById s i = Some t"
    and "user_id user \<in> set (assignedTo t) \<or> user_role user = Admin"
  shows "\<exists>s' t'. updateTaskStatus s user i (Some Completed) = Inr s' \<and>
           findTaskById s' i = Some t' \<and> status t' = Completed \<and> progress t' = 100 \<and>
           (\<forall>item \<in> set (todoChecklist t'). completed item)"
proof -
  define t' where "t' = t\<lparr>status := Completed,
      todoChecklist := map (\<lambda>item. item\<lparr>completed := True\<rparr>) (todoChecklist t),
      progress := 100\<rparr>"
  have "updateTaskStatus s user i (Some Completed) = Inr (saveTask s t')"
    using assms by (auto simp: updateTaskStatus_def Let_def t'_def)
  moreover have "tid t' = i" using findTaskById_tid [OF assms(1)] by (simp add: t'_def)
  then have "findTaskById (saveTask s t') i = Some t'"
    using assms(1) by (rule findTaskById_saveTask [rotated])
  ultimately show ?thesis by (auto simp: t'_def)
qed

section \<open>Stored and computed status\<close>

lemma getTasks_vstatus:
  "v \<in> set (getTasks regexMatch s user q) \<Longrightarrow>
   vstatus v = resolveStatus (vdoc v) (filter (\<lambda>r. taskId r = tid (vdoc v)) (requests s))"
  by (auto simp: getTasks_def taskWithAssignmentInfo_def Let_def)

text \<open>
  Claim C1, at a failing input. A task stored as Completed gets a new Pending request,
  which createTaskAssignmentRequest records without touching the task. getTasks then
  reports the computed status Pending Approval, while getTaskById returns the stored
  document with status Completed.
\<close>

theorem getTaskById_stale_status:
  "createTaskAssignmentRequest db_completed 1 8 9 = Inr db_completed_asked \<and>
   map vstatus (getTasks matchAll db_completed_asked admin9 noQuery) = [PendingApproval] \<and>
   getTaskById db_completed_asked 1 = Inr task_single \<and>
   status task_single = Completed \<and>
   resolveStatus task_single (requests db_completed_asked) = PendingApproval"
proof -
  have r: "resolveStatus task_single [req_approved7, req_pending8] = PendingApproval"
    by (simp add: resolveStatus_cases spec_singleUserRejected_def anyMapped_def
          latestRequest_def ex_defs)
  have "createTaskAssignmentRequest db_completed 1 8 9 = Inr db_completed_asked"
    by (simp add: createTaskAssignmentRequest_def op_defs ex_defs)
  moreover have "map vstatus (getTasks matchAll db_completed_asked admin9 noQuery)
                   = [PendingApproval]"
    using r by (simp add: read_defs ex_defs)
  moreover have "getTaskById db_completed_asked 1 = Inr task_single"
    by (simp add: getTaskById_def findTaskById_def populateAssignedTo_def
          db_completed_asked_def task_single_def)
  moreover have "status task_single = Completed" by (simp add: task_single_def)
  ultimately show ?thesis using r by (simp add: db_completed_asked_def)
qed

lemma approve_effect:
  assumes "findRequestById s requestId = Some r"
    and "assignedToUserId r = user_id user"
    and "findTaskById s (taskId r) = Some t"
  shows "\<exists>s' t'. respondToAssignmentRequest s user requestId ''approve'' reason = Inr s' \<and>
           findRequestById s' requestId = Some (r\<lparr>rstatus := RApproved, rejectionReason := None\<rparr>) \<and>
           findTaskById s' (taskId r) = Some t' \<and>
           t' = t\<lparr>assignedTo := (if assignedToUserId r \<in> set (assignedTo t) then assignedTo t
                                 else assignedTo t @ [assignedToUserId r])\<rparr>"
proof -
  define r' where "r' = r\<lparr>rstatus := RApproved, rejectionReason := None\<rparr>"
  define t' where "t' = t\<lparr>assignedTo := (if assignedToUserId r \<in> set (assignedTo t)
      then assignedTo t else assignedTo t @ [assignedToUserId r])\<rparr>"
  define s1 where "s1 = (if assignedToUserId r \<notin> set (assignedTo t) then saveTask s t' else s)"
  have res: "respondToAssignmentRequest s user requestId ''approve'' reason = Inr (saveRequest s1 r')"
    using assms by (simp add: respondToAssignmentRequest_def Let_def r'_def s1_def t'_def)
  have tid: "tid t' = taskId r" using findTaskById_tid [OF assms(3)] by (simp add: t'_def)
  have "findTaskById s1 (taskId r) = Some t'"
  proof (cases "assignedToUserId r \<in> set (assignedTo t)")
    case True
    then show ?thesis using assms(3) by (simp add: s1_def t'_def)
  next
    case False
    then show ?thesis using findTaskById_saveTask [OF assms(3) tid] by (simp add: s1_def)
  qed
  then have ft: "findTaskById (saveRequest s1 r') (taskId r) = Some t'" by simp
  have "findRequestById s1 requestId = Some r" using assms(1) by (simp add: s1_def)
  moreover have "rid r' = requestId" using findRequestById_rid [OF assms(1)] by (simp add: r'_def)
  ultimately have "findRequestById (saveRequest s1 r') requestId = Some r'"
    by (rule findRequestById_saveRequest)
  with res ft show ?thesis by (simp add: r'_def t'_def)
qed

text \<open>
  Claim C3, at a failing input. The approve branch sets the request to Approved, clears
  the reason and appends the candidate once (lemma \<open>approve_effect\<close>), and it writes no
  status. After the only request of a task was rejected (stored status Rejected), a new
  request for the same candidate is created and approved: the stored status stays
  Rejected, where the resolver gives Pending, and the approved assignee is refused the
  checklist update.
\<close>

theorem approve_keeps_stale_status:
  "respondToAssignmentRequest db_pending user7 2 ''reject'' (Some ''busy'') = Inr db_refused \<and>
   createTaskAssignmentRequest db_refused 1 7 9 = Inr db_asked_again \<and>
   respondToAssignmentRequest db_asked_again user7 3 ''approve'' None = Inr db_accepted \<and>
   getTaskById db_accepted 1 = Inr task_accepted \<and>
   status task_accepted = Rejected \<and>
   resolveStatus task_accepted (requests db_accepted) = Pending \<and>
   updateTaskChecklist db_accepted user7 1 [\<lparr>todoText = ''a'', completed = True\<rparr>] = Inl Forbidden"
proof -
  have "respondToAssignmentRequest db_pending user7 2 ''reject'' (Some ''busy'') = Inr db_refused"
    by (simp add: respondToAssignmentRequest_def rejectTaskStatus_def op_defs ex_defs)
  moreover have "createTaskAssignmentRequest db_refused 1 7 9 = Inr db_asked_again"
    by (simp add: createTaskAssignmentRequest_def op_defs ex_defs)
  moreover have "respondToAssignmentRequest db_asked_again user7 3 ''approve'' None = Inr db_accepted"
    by (simp add: respondToAssignmentRequest_def op_defs ex_defs)
  moreover have "getTaskById db_accepted 1 = Inr task_accepted"
    by (simp add: getTaskById_def populateAssignedTo_def op_defs ex_defs)
  moreover have "status task_accepted = Rejected" by (simp add: ex_defs)
  moreover have "resolveStatus task_accepted (requests db_accepted) = Pending"
    by (simp add: resolveStatus_cases spec_singleUserRejected_def anyMapped_def
          latestRequest_def todoStarted_def allTodoCompleted_def ex_defs)
  moreover have "updateTaskChecklist db_accepted user7 1 [\<lparr>todoText = ''a'', completed = True\<rparr>]
      = Inl Forbidden"
    by (simp add: updateTaskChecklist_def op_defs ex_defs)
  ultimately show ?thesis by simp
qed

end
